theory Spec2Isabelle
  imports Main "HOL-Library.Char_ord" "HOL-Library.List_Lexorder"
begin

section \<open>JavaScript strings and objects\<close>

text \<open>
  A JavaScript string is modelled as a \<^typ>\<open>string\<close>: a list of code units, each below
  256 (the stylesheets are ASCII text).  The string methods the tools call are written out
  below under their JavaScript names.
\<close>

definition startsWith :: "string \<Rightarrow> string \<Rightarrow> bool" where
  "startsWith s p = (take (length p) s = p)"

fun includes_str :: "string \<Rightarrow> string \<Rightarrow> bool" where
  "includes_str [] p = (p = [])"
| "includes_str (c # cs) p = (startsWith (c # cs) p \<or> includes_str cs p)"

text \<open>
  The characters matched by \<^verbatim>\<open>\s\<close> and removed by \<^verbatim>\<open>trim()\<close>: tab, line feed,
  vertical tab, form feed, carriage return, space and no-break space (the white space and
  line terminators among the code units below 256).
\<close>

definition is_space :: "char \<Rightarrow> bool" where
  "is_space c = (of_char c \<in> {9::nat, 10, 11, 12, 13, 32, 160})"

definition trim :: "string \<Rightarrow> string" where
  "trim s = rev (dropWhile is_space (rev (dropWhile is_space s)))"

text \<open>
  A JavaScript object used as a dictionary: the own properties in enumeration order.
  Assigning to an existing key keeps its position, a new key goes to the end.  (Keys that
  are array indices would be enumerated first.  A property name starts with \<^verbatim>\<open>--\<close> and
  the other keys of the classifier are fixed words, so none is; only a theme name read
  from a stylesheet could be one, and nothing below depends on the order of the themes.)
\<close>

type_synonym 'v obj = "(string \<times> 'v) list"

definition obj_get :: "'v obj \<Rightarrow> string \<Rightarrow> 'v option" where
  "obj_get ob k = map_of ob k"

fun obj_set :: "'v obj \<Rightarrow> string \<Rightarrow> 'v \<Rightarrow> 'v obj" where
  "obj_set [] k v = [(k, v)]"
| "obj_set ((k', v') # kvs) k v =
     (if k' = k then (k, v) # kvs else (k', v') # obj_set kvs k v)"

definition obj_keys :: "'v obj \<Rightarrow> string list" where
  "obj_keys ob = map fst ob"

text \<open>\<^verbatim>\<open>Object.assign(target, source)\<close> and the spread \<^verbatim>\<open>{...a, ...b}\<close>.\<close>

definition obj_assign :: "'v obj \<Rightarrow> 'v obj \<Rightarrow> 'v obj" where
  "obj_assign target source = foldl (\<lambda>t (k, v). obj_set t k v) target source"

definition spread2 :: "'v obj \<Rightarrow> 'v obj \<Rightarrow> 'v obj" where
  "spread2 a b = obj_assign (obj_assign [] a) b"

type_synonym vars = "string obj"

section \<open>Token classifier (TokenExplorerTool.buildGroupedTokens)\<close>

record token =
  tok_name :: string
  tok_value :: string
  tok_raw :: string
  tok_type :: string

record colors =
  Interactive :: "token obj"
  Background :: "token obj"
  Text :: "token obj"
  Icon :: "token obj"
  Border :: "token obj"
  Elevation :: "token obj"
  Chart :: "token obj"
  Legacy :: "token obj"

record gradients =
  GInteractive :: "token obj"
  General :: "token obj"

text \<open>
  An entry of the rebuilt \<^verbatim>\<open>'All tokens'\<close> object is whatever the rebuild loop stores
  under a key: a token object, or one of a token's own string fields (see \<open>add_fields\<close>).
\<close>

datatype all_entry = Token token | Field string

record grouped =
  All_tokens :: "all_entry obj"
  Colors :: colors
  Gradients :: gradients
  Typography :: "token obj"
  Spacing :: "token obj"
  Shadows :: "token obj"
  Border_Radius :: "token obj"
  Other :: "token obj"

definition empty_grouped :: grouped where
  "empty_grouped =
     \<lparr>All_tokens = [],
      Colors = \<lparr>Interactive = [], Background = [], Text = [], Icon = [], Border = [],
                Elevation = [], Chart = [], Legacy = []\<rparr>,
      Gradients = \<lparr>GInteractive = [], General = []\<rparr>,
      Typography = [], Spacing = [], Shadows = [], Border_Radius = [], Other = []\<rparr>"

text \<open>The \<^verbatim>\<open>tokenType\<close> chain (lines 176-189 and again 258-271).\<close>

definition tokenType :: "string \<Rightarrow> string" where
  "tokenType name =
     (if startsWith name ''--prism-color-'' \<or> startsWith name ''--color-'' then ''color''
      else if startsWith name ''--prism-gradient-'' then ''gradient''
      else if startsWith name ''--prism-typography-'' then ''typography''
      else if startsWith name ''--prism-spacing-'' then ''spacing''
      else if startsWith name ''--prism-shadow-'' then ''shadow''
      else if startsWith name ''--prism-radius-'' \<or> startsWith name ''--prism-border-radius-''
              \<or> startsWith name ''--border-radius-'' then ''border-radius''
      else ''variable'')"

definition mk_token :: "string \<Rightarrow> string \<Rightarrow> token" where
  "mk_token name v = \<lparr>tok_name = name, tok_value = v, tok_raw = v, tok_type = tokenType name\<rparr>"

text \<open>
  The body of the first \<^verbatim>\<open>Object.entries(effective).forEach\<close> (lines 172-248): one
  property is filed under at most one category, the state being the \<open>grouped\<close> object.
\<close>

definition categorize :: "grouped \<Rightarrow> string \<times> string \<Rightarrow> grouped" where
  "categorize g nv =
     (let name = fst nv; token = mk_token name (snd nv) in
      if \<not> startsWith name ''--'' then g
      else if startsWith name ''--prism-color-'' then
        (let token = token\<lparr>tok_type := ''color''\<rparr> in
         if startsWith name ''--prism-color-chart-'' then
           (if \<not> startsWith name ''--prism-color-chart-categorical-'' \<and>
               \<not> startsWith name ''--prism-color-chart-sequential-''
            then g\<lparr>Colors := (Colors g)\<lparr>Chart := obj_set (Chart (Colors g)) name token\<rparr>\<rparr>
            else g)
         else if startsWith name ''--prism-color-interactive-'' then
           g\<lparr>Colors := (Colors g)\<lparr>Interactive := obj_set (Interactive (Colors g)) name token\<rparr>\<rparr>
         else if startsWith name ''--prism-color-background-'' then
           g\<lparr>Colors := (Colors g)\<lparr>Background := obj_set (Background (Colors g)) name token\<rparr>\<rparr>
         else if startsWith name ''--prism-color-text-'' then
           g\<lparr>Colors := (Colors g)\<lparr>Text := obj_set (Text (Colors g)) name token\<rparr>\<rparr>
         else if startsWith name ''--prism-color-icon-'' then
           g\<lparr>Colors := (Colors g)\<lparr>Icon := obj_set (Icon (Colors g)) name token\<rparr>\<rparr>
         else if startsWith name ''--prism-color-border-'' \<or>
                 startsWith name ''--prism-color-outline-'' then
           g\<lparr>Colors := (Colors g)\<lparr>Border := obj_set (Border (Colors g)) name token\<rparr>\<rparr>
         else if startsWith name ''--prism-color-elevation-'' then
           g\<lparr>Colors := (Colors g)\<lparr>Elevation := obj_set (Elevation (Colors g)) name token\<rparr>\<rparr>
         else g)
      else if startsWith name ''--prism-gradient-'' then
        (let token = token\<lparr>tok_type := ''gradient''\<rparr> in
         if includes_str name ''interactive'' then
           g\<lparr>Gradients := (Gradients g)\<lparr>GInteractive := obj_set (GInteractive (Gradients g)) name token\<rparr>\<rparr>
         else
           g\<lparr>Gradients := (Gradients g)\<lparr>General := obj_set (General (Gradients g)) name token\<rparr>\<rparr>)
      else if startsWith name ''--prism-typography-'' then
        g\<lparr>Typography := obj_set (Typography g) name (token\<lparr>tok_type := ''typography''\<rparr>)\<rparr>
      else if startsWith name ''--prism-spacing-'' then
        g\<lparr>Spacing := obj_set (Spacing g) name (token\<lparr>tok_type := ''spacing''\<rparr>)\<rparr>
      else if startsWith name ''--prism-shadow-'' then
        g\<lparr>Shadows := obj_set (Shadows g) name (token\<lparr>tok_type := ''shadow''\<rparr>)\<rparr>
      else if startsWith name ''--prism-radius-'' \<or> startsWith name ''--prism-border-radius-''
              \<or> startsWith name ''--border-radius-'' then
        g\<lparr>Border_Radius := obj_set (Border_Radius g) name (token\<lparr>tok_type := ''border-radius''\<rparr>)\<rparr>
      else if startsWith name ''--color-'' then
        g\<lparr>Colors := (Colors g)\<lparr>Legacy := obj_set (Legacy (Colors g)) name (token\<lparr>tok_type := ''color''\<rparr>)\<rparr>\<rparr>
      else
        g\<lparr>Other := obj_set (Other g) name token\<rparr>)"

text \<open>
  \<^verbatim>\<open>allProcessedTokens\<close> (lines 254-275): a fresh token for every property whose name
  starts with \<^verbatim>\<open>--\<close>.
\<close>

definition allProcessedTokens :: "vars \<Rightarrow> token obj" where
  "allProcessedTokens effective =
     foldl (\<lambda>acc nv. if startsWith (fst nv) ''--''
                      then obj_set acc (fst nv) (mk_token (fst nv) (snd nv)) else acc)
       [] effective"

text \<open>
  The rebuild of \<^verbatim>\<open>'All tokens'\<close> (lines 307-336).  For a category with a declared
  \<^verbatim>\<open>subCategoryOrder\<close> (Colors, Gradients) each subcategory is visited in that order
  and its tokens are stored under their names, sorted: \<open>add_tokens\<close>.
\<close>

definition add_tokens :: "all_entry obj \<Rightarrow> token obj \<Rightarrow> all_entry obj" where
  "add_tokens ordered subCategory =
     foldl (\<lambda>acc tokenName.
              case obj_get subCategory tokenName of
                Some t \<Rightarrow> obj_set acc tokenName (Token t)
              | None \<Rightarrow> acc)
       ordered (sort (obj_keys subCategory))"

text \<open>
  The test \<^verbatim>\<open>typeof category === 'object' && !category.name\<close> also holds for the five
  categories that hold tokens directly (no stored property is called \<^verbatim>\<open>name\<close>: every
  key starts with \<^verbatim>\<open>--\<close>), so they take the same branch, with
  \<^verbatim>\<open>Object.keys(category)\<close> as the list of "subcategories".  Each "subcategory" is then a
  token object, whose sorted keys are \<^verbatim>\<open>name, raw, type, value\<close>; every field that is a
  non-empty string is stored under the field's name: \<open>add_fields\<close>.  The \<^verbatim>\<open>else\<close>
  branch of the test is never taken.
\<close>

definition add_fields :: "all_entry obj \<Rightarrow> token \<Rightarrow> all_entry obj" where
  "add_fields ordered t =
     foldl (\<lambda>acc kv. if snd kv \<noteq> [] then obj_set acc (fst kv) (Field (snd kv)) else acc)
       ordered
       [(''name'', tok_name t), (''raw'', tok_raw t), (''type'', tok_type t),
        (''value'', tok_value t)]"

definition add_flat_category :: "all_entry obj \<Rightarrow> token obj \<Rightarrow> all_entry obj" where
  "add_flat_category ordered category = foldl add_fields ordered (map snd category)"

text \<open>The fallback for tokens not stored yet (lines 339-343), then line 346.\<close>

definition add_uncategorized :: "all_entry obj \<Rightarrow> token obj \<Rightarrow> all_entry obj" where
  "add_uncategorized ordered processed =
     foldl (\<lambda>acc nt. if obj_get acc (fst nt) = None
                      then obj_set acc (fst nt) (Token (snd nt)) else acc)
       ordered processed"

definition orderedAllVariables :: "grouped \<Rightarrow> vars \<Rightarrow> all_entry obj" where
  "orderedAllVariables g effective =
     (let c = Colors g; gr = Gradients g;
          a = foldl add_tokens []
                [Interactive c, Background c, Text c, Icon c, Border c, Elevation c,
                 Chart c, Legacy c];
          a = foldl add_tokens a [GInteractive gr, General gr];
          a = foldl add_flat_category a
                [Typography g, Spacing g, Shadows g, Border_Radius g, Other g]
      in add_uncategorized a (allProcessedTokens effective))"

definition group_theme :: "vars \<Rightarrow> grouped" where
  "group_theme effective =
     (let g = foldl categorize empty_grouped effective
      in g\<lparr>All_tokens := orderedAllVariables g effective\<rparr>)"

text \<open>
  \<^verbatim>\<open>rawMap.root || {}\<close>, \<^verbatim>\<open>rawMap[theme] || {}\<close> and the spread of line 144.
\<close>

definition or_empty :: "vars option \<Rightarrow> vars" where
  "or_empty v = (case v of None \<Rightarrow> [] | Some m \<Rightarrow> m)"

definition effective_map :: "vars obj \<Rightarrow> string \<Rightarrow> vars" where
  "effective_map rawMap theme =
     spread2 (or_empty (obj_get rawMap ''root'')) (or_empty (obj_get rawMap theme))"

definition availableThemes :: "string list" where
  "availableThemes = [''light'', ''dark'', ''highcontrast-light'', ''highcontrast-dark'']"

definition buildGroupedTokens :: "vars obj \<Rightarrow> grouped obj" where
  "buildGroupedTokens rawMap =
     foldl (\<lambda>acc theme. obj_set acc theme (group_theme (effective_map rawMap theme)))
       [] availableThemes"

section \<open>Reading the classifier output\<close>

text \<open>
  The fifteen places a token can be filed under: the eight subcategories of Colors, the two
  of Gradients, and the five categories that hold tokens directly.  \<open>get_slot\<close> reads one
  of them, \<open>put_slot\<close> replaces it.
\<close>

datatype slot =
  SInteractive | SBackground | SText | SIcon | SBorder | SElevation | SChart | SLegacy
  | SGInteractive | SGeneral | STypography | SSpacing | SShadows | SBorder_Radius | SOther

fun get_slot :: "slot \<Rightarrow> grouped \<Rightarrow> token obj" where
  "get_slot SInteractive g = Interactive (Colors g)"
| "get_slot SBackground g = Background (Colors g)"
| "get_slot SText g = Text (Colors g)"
| "get_slot SIcon g = Icon (Colors g)"
| "get_slot SBorder g = Border (Colors g)"
| "get_slot SElevation g = Elevation (Colors g)"
| "get_slot SChart g = Chart (Colors g)"
| "get_slot SLegacy g = Legacy (Colors g)"
| "get_slot SGInteractive g = GInteractive (Gradients g)"
| "get_slot SGeneral g = General (Gradients g)"
| "get_slot STypography g = Typography g"
| "get_slot SSpacing g = Spacing g"
| "get_slot SShadows g = Shadows g"
| "get_slot SBorder_Radius g = Border_Radius g"
| "get_slot SOther g = Other g"

fun put_slot :: "slot \<Rightarrow> token obj \<Rightarrow> grouped \<Rightarrow> grouped" where
  "put_slot SInteractive x g = g\<lparr>Colors := (Colors g)\<lparr>Interactive := x\<rparr>\<rparr>"
| "put_slot SBackground x g = g\<lparr>Colors := (Colors g)\<lparr>Background := x\<rparr>\<rparr>"
| "put_slot SText x g = g\<lparr>Colors := (Colors g)\<lparr>Text := x\<rparr>\<rparr>"
| "put_slot SIcon x g = g\<lparr>Colors := (Colors g)\<lparr>Icon := x\<rparr>\<rparr>"
| "put_slot SBorder x g = g\<lparr>Colors := (Colors g)\<lparr>Border := x\<rparr>\<rparr>"
| "put_slot SElevation x g = g\<lparr>Colors := (Colors g)\<lparr>Elevation := x\<rparr>\<rparr>"
| "put_slot SChart x g = g\<lparr>Colors := (Colors g)\<lparr>Chart := x\<rparr>\<rparr>"
| "put_slot SLegacy x g = g\<lparr>Colors := (Colors g)\<lparr>Legacy := x\<rparr>\<rparr>"
| "put_slot SGInteractive x g = g\<lparr>Gradients := (Gradients g)\<lparr>GInteractive := x\<rparr>\<rparr>"
| "put_slot SGeneral x g = g\<lparr>Gradients := (Gradients g)\<lparr>General := x\<rparr>\<rparr>"
| "put_slot STypography x g = g\<lparr>Typography := x\<rparr>"
| "put_slot SSpacing x g = g\<lparr>Spacing := x\<rparr>"
| "put_slot SShadows x g = g\<lparr>Shadows := x\<rparr>"
| "put_slot SBorder_Radius x g = g\<lparr>Border_Radius := x\<rparr>"
| "put_slot SOther x g = g\<lparr>Other := x\<rparr>"


definition all_slots :: "slot list" where
  "all_slots =
     [SInteractive, SBackground, SText, SIcon, SBorder, SElevation, SChart, SLegacy,
      SGInteractive, SGeneral, STypography, SSpacing, SShadows, SBorder_Radius, SOther]"

definition leaf_slots :: "grouped \<Rightarrow> token obj list" where
  "leaf_slots g = map (\<lambda>s. get_slot s g) all_slots"

text \<open>In how many (sub)categories a name is a key, and how often it is a key of All.\<close>

definition slot_count :: "grouped \<Rightarrow> string \<Rightarrow> nat" where
  "slot_count g n = length (filter (\<lambda>ob. obj_get ob n \<noteq> None) (leaf_slots g))"

definition all_count :: "grouped \<Rightarrow> string \<Rightarrow> nat" where
  "all_count g n = length (filter (\<lambda>k. k = n) (obj_keys (All_tokens g)))"

text \<open>
  The branch of \<open>categorize\<close> a name takes, read off its if-chain: the slot and the
  \<^verbatim>\<open>type\<close> written to the token, or \<open>None\<close> where the chain stores nothing.
\<close>

definition route :: "string \<Rightarrow> (slot \<times> string) option" where
  "route name =
     (if startsWith name ''--prism-color-'' then
        (if startsWith name ''--prism-color-chart-'' then
           (if \<not> startsWith name ''--prism-color-chart-categorical-'' \<and>
               \<not> startsWith name ''--prism-color-chart-sequential-''
            then Some (SChart, ''color'') else None)
         else if startsWith name ''--prism-color-interactive-'' then Some (SInteractive, ''color'')
         else if startsWith name ''--prism-color-background-'' then Some (SBackground, ''color'')
         else if startsWith name ''--prism-color-text-'' then Some (SText, ''color'')
         else if startsWith name ''--prism-color-icon-'' then Some (SIcon, ''color'')
         else if startsWith name ''--prism-color-border-'' \<or>
                 startsWith name ''--prism-color-outline-'' then Some (SBorder, ''color'')
         else if startsWith name ''--prism-color-elevation-'' then Some (SElevation, ''color'')
         else None)
      else if startsWith name ''--prism-gradient-'' then
        (if includes_str name ''interactive'' then Some (SGInteractive, ''gradient'')
         else Some (SGeneral, ''gradient''))
      else if startsWith name ''--prism-typography-'' then Some (STypography, ''typography'')
      else if startsWith name ''--prism-spacing-'' then Some (SSpacing, ''spacing'')
      else if startsWith name ''--prism-shadow-'' then Some (SShadows, ''shadow'')
      else if startsWith name ''--prism-radius-'' \<or> startsWith name ''--prism-border-radius-''
              \<or> startsWith name ''--border-radius-'' then Some (SBorder_Radius, ''border-radius'')
      else if startsWith name ''--color-'' then Some (SLegacy, ''color'')
      else Some (SOther, tokenType name))"



text \<open>
  The names the colour branch leaves out (lines 198-219): foundational chart colours, and
  colour names with none of the second-level prefixes.
\<close>

definition excluded_color :: "string \<Rightarrow> bool" where
  "excluded_color name =
     (startsWith name ''--prism-color-'' \<and>
      (if startsWith name ''--prism-color-chart-''
       then startsWith name ''--prism-color-chart-categorical-'' \<or>
            startsWith name ''--prism-color-chart-sequential-''
       else \<not> startsWith name ''--prism-color-interactive-'' \<and>
            \<not> startsWith name ''--prism-color-background-'' \<and>
            \<not> startsWith name ''--prism-color-text-'' \<and>
            \<not> startsWith name ''--prism-color-icon-'' \<and>
            \<not> startsWith name ''--prism-color-border-'' \<and>
            \<not> startsWith name ''--prism-color-outline-'' \<and>
            \<not> startsWith name ''--prism-color-elevation-''))"

text \<open>
  What the proofs keep track of: a stored token carries its key as name and has equal
  \<^verbatim>\<open>raw\<close> and \<^verbatim>\<open>value\<close>; an entry of All is such a token, or a string under
  one of the four field names.
\<close>

definition tokens_ok :: "token obj \<Rightarrow> bool" where
  "tokens_ok ob = (\<forall>(k, t) \<in> set ob. tok_name t = k \<and> tok_raw t = tok_value t)"

definition entries_ok :: "all_entry obj \<Rightarrow> bool" where
  "entries_ok a =
     (\<forall>(k, e) \<in> set a.
        case e of Token t \<Rightarrow> tok_name t = k \<and> tok_raw t = tok_value t
                | Field _ \<Rightarrow> k \<in> {''name'', ''raw'', ''type'', ''value''})"

section \<open>Palette descriptor builder (PalettesExplorerApp)\<close>

definition is_digit :: "char \<Rightarrow> bool" where
  "is_digit c = (let n = of_char c :: nat in 48 \<le> n \<and> n \<le> 57)"

definition is_upper :: "char \<Rightarrow> bool" where
  "is_upper c = (let n = of_char c :: nat in 65 \<le> n \<and> n \<le> 90)"

definition is_lower :: "char \<Rightarrow> bool" where
  "is_lower c = (let n = of_char c :: nat in 97 \<le> n \<and> n \<le> 122)"

text \<open>
  Case mapping of the letters \<^verbatim>\<open>a-z\<close> and \<^verbatim>\<open>A-Z\<close>; other characters are left as
  they are.  That is all the builders need: the patterns they match names with admit
  the letters \<^verbatim>\<open>[a-z]\<close> in either case, digits and hyphens only, so a family
  identifier that reaches \<^verbatim>\<open>formatLabel\<close> has no other letter.
\<close>

definition lower :: "char \<Rightarrow> char" where
  "lower c = (if is_upper c then char_of (of_char c + 32 :: nat) else c)"

definition upper :: "char \<Rightarrow> char" where
  "upper c = (if is_lower c then char_of (of_char c - 32 :: nat) else c)"

record swatch =
  sw_step :: string
  sw_displayStep :: string
  sw_fallback :: string
  sw_cssVar :: string

record row =
  row_id :: string
  row_label :: string
  row_swatches :: "swatch list"

definition GENERAL_ORDER :: "string list" where
  "GENERAL_ORDER =
     [''brand'', ''info'', ''success'', ''warning'', ''critical'', ''intelligence'', ''neutral'']"

definition ALPHA_ORDER :: "string list" where
  "ALPHA_ORDER =
     [''info'', ''success'', ''warning'', ''critical'', ''intelligence'', ''neutral'', ''brand'']"

definition CHART_ORDER :: "string list" where
  "CHART_ORDER =
     [''info'', ''success'', ''warning'', ''critical'', ''intelligence'', ''neutral'',
      ''brand-sunset'', ''categorical'']"

definition MAX_SAFE_INTEGER :: int where
  "MAX_SAFE_INTEGER = 9007199254740991"

text \<open>
  \<^verbatim>\<open>parseInt(s, 10)\<close>: leading white space, an optional sign, then the longest run of
  decimal digits; \<open>None\<close> is NaN.  The result is the exact integer (a JavaScript number
  is exact below \<open>2^53\<close>; the steps the builders pass have at most three digits).
\<close>

definition digits_value :: "string \<Rightarrow> int" where
  "digits_value ds = foldl (\<lambda>acc c. acc * 10 + (int (of_char c) - 48)) 0 ds"

definition parseInt10 :: "string \<Rightarrow> int option" where
  "parseInt10 s =
     (let t = dropWhile is_space s;
          neg = (t \<noteq> [] \<and> hd t = CHR ''-'');
          u = (if t \<noteq> [] \<and> (hd t = CHR ''-'' \<or> hd t = CHR ''+'') then tl t else t);
          ds = takeWhile is_digit u
      in if ds = [] then None
         else Some (if neg then - digits_value ds else digits_value ds))"

text \<open>\<^verbatim>\<open>parseNumericStep\<close> (lines 232-238); \<^verbatim>\<open>step.replace(/^0+/, '')\<close> drops the leading zeros.\<close>

definition parseNumericStep :: "string \<Rightarrow> int" where
  "parseNumericStep step =
     (if step = [] then MAX_SAFE_INTEGER
      else let cleaned = dropWhile (\<lambda>c. c = CHR ''0'') step in
        if cleaned = [] then 0
        else case parseInt10 cleaned of None \<Rightarrow> MAX_SAFE_INTEGER | Some v \<Rightarrow> v)"

text \<open>
  \<^verbatim>\<open>buildSwatch\<close> (lines 191-203).  \<^verbatim>\<open>value.replace(/;$/, '')\<close> removes one final
  semicolon; \<^verbatim>\<open>slice(4, -1)\<close> drops four characters in front and one at the end; the
  optional \<^verbatim>\<open>displayStep\<close> is an \<open>option\<close>.
\<close>

definition buildSwatch :: "string \<Rightarrow> string \<Rightarrow> string \<Rightarrow> string option \<Rightarrow> swatch" where
  "buildSwatch step v cssVarName displayStep =
     (let normalizedValue = (if v \<noteq> [] \<and> last v = CHR '';'' then butlast v else v);
          label = (case displayStep of None \<Rightarrow> step | Some d \<Rightarrow> d);
          varName = (if startsWith cssVarName ''var('' then butlast (drop 4 cssVarName)
                     else cssVarName)
      in \<lparr>sw_step = step, sw_displayStep = label, sw_fallback = normalizedValue,
          sw_cssVar = varName\<rparr>)"

text \<open>
  The family patterns, all of the shape
  \<^verbatim>\<open>/^PREFIX([a-z0-9-]+)-([0-9]{lo,hi})$/i\<close>.  The step holds no hyphen and reaches the
  end of the name, so the hyphen in front of it is the last one of the name: a match, if
  there is one, is unique, and greedy backtracking finds it.  With the \<^verbatim>\<open>i\<close> flag the
  prefix and the letters of the family match in either case.
\<close>

definition is_family_char :: "char \<Rightarrow> bool" where
  "is_family_char c = (is_lower c \<or> is_upper c \<or> is_digit c \<or> c = CHR ''-'')"

definition match_family_step :: "string \<Rightarrow> nat \<Rightarrow> nat \<Rightarrow> string \<Rightarrow> (string \<times> string) option" where
  "match_family_step pre lo hi name =
     (if map lower (take (length pre) name) \<noteq> pre then None
      else let rest = drop (length pre) name;
               step = rev (takeWhile (\<lambda>c. c \<noteq> CHR ''-'') (rev rest));
               family = take (length rest - length step - 1) rest
           in if length step < length rest \<and> lo \<le> length step \<and> length step \<le> hi \<and>
                 list_all is_digit step \<and> family \<noteq> [] \<and> list_all is_family_char family
              then Some (family, step) else None)"

text \<open>\<^verbatim>\<open>/^--prism-color-chart-categorical-([0-9]{2})$/i\<close>.\<close>

definition match_categorical :: "string \<Rightarrow> string option" where
  "match_categorical name =
     (let pre = ''--prism-color-chart-categorical-''; step = drop (length pre) name
      in if map lower (take (length pre) name) = pre \<and> length step = 2 \<and> list_all is_digit step
         then Some step else None)"

text \<open>
  \<^verbatim>\<open>rows\<close> is a \<^verbatim>\<open>Map\<close> from family to the swatches pushed so far, in insertion order:
  \<^verbatim>\<open>if (!rows.has(family)) rows.set(family, []); rows.get(family).push(...)\<close>.
\<close>

definition push_row :: "swatch list obj \<Rightarrow> string \<Rightarrow> swatch \<Rightarrow> swatch list obj" where
  "push_row rows family sw =
     (case obj_get rows family of
        None \<Rightarrow> obj_set rows family [sw]
      | Some sws \<Rightarrow> obj_set rows family (sws @ [sw]))"

text \<open>
  \<^verbatim>\<open>formatLabel\<close> (lines 240-245): split on hyphens, upper-case the first letter of each
  word, join with spaces.
\<close>

fun split_on :: "char \<Rightarrow> string \<Rightarrow> string list" where
  "split_on d [] = [[]]"
| "split_on d (c # cs) =
     (if c = d then [] # split_on d cs
      else case split_on d cs of w # ws \<Rightarrow> (c # w) # ws | [] \<Rightarrow> [[c]])"

fun join_with :: "string \<Rightarrow> string list \<Rightarrow> string" where
  "join_with d [] = []"
| "join_with d [w] = w"
| "join_with d (w # ws) = w @ d @ join_with d ws"

definition formatLabel :: "string \<Rightarrow> string" where
  "formatLabel family =
     join_with '' ''
       (map (\<lambda>word. case word of [] \<Rightarrow> [] | c # cs \<Rightarrow> upper c # cs)
          (split_on (CHR ''-'') family))"

text \<open>
  \<^verbatim>\<open>Array.prototype.sort\<close> with a comparator is a stable sort; \<open>sort_by le\<close> is the
  stable insertion sort for the order \<open>le a b\<close> ("the comparator is not positive").
\<close>

fun insert_by :: "('a \<Rightarrow> 'a \<Rightarrow> bool) \<Rightarrow> 'a \<Rightarrow> 'a list \<Rightarrow> 'a list" where
  "insert_by le x [] = [x]"
| "insert_by le x (y # ys) = (if le x y then x # y # ys else y # insert_by le x ys)"

definition sort_by :: "('a \<Rightarrow> 'a \<Rightarrow> bool) \<Rightarrow> 'a list \<Rightarrow> 'a list" where
  "sort_by le xs = foldr (insert_by le) xs []"

text \<open>
  \<^verbatim>\<open>preferredOrder.indexOf(id)\<close>, with \<^verbatim>\<open>Number.MAX_SAFE_INTEGER\<close> for \<open>-1\<close>.
\<close>

fun indexOf :: "string list \<Rightarrow> string \<Rightarrow> int" where
  "indexOf [] x = -1"
| "indexOf (y # ys) x = (if y = x then 0 else let i = indexOf ys x in if i = -1 then -1 else i + 1)"

definition safeIdx :: "string list \<Rightarrow> string \<Rightarrow> int" where
  "safeIdx preferredOrder x =
     (let i = indexOf preferredOrder x in if i = -1 then MAX_SAFE_INTEGER else i)"

definition padStart2 :: "string \<Rightarrow> string" where
  "padStart2 s = replicate (2 - length s) (CHR ''0'') @ s"

text \<open>
  \<^verbatim>\<open>orderRows\<close> (lines 205-230).  Each row's swatches are sorted by
  \<^verbatim>\<open>sortFn(a.step) - sortFn(b.step)\<close>, with \<^verbatim>\<open>sortFn = parseNumericStep\<close> at every call;
  the rows are sorted by preferred index, then by \<^verbatim>\<open>a.label.localeCompare(b.label)\<close>.
  \<^verbatim>\<open>localeCompare\<close> belongs to the platform and is the parameter \<open>lc\<close>.
\<close>

definition row_le :: "(string \<Rightarrow> string \<Rightarrow> int) \<Rightarrow> string list \<Rightarrow> row \<Rightarrow> row \<Rightarrow> bool" where
  "row_le lc preferredOrder a b =
     (let safeIdxA = safeIdx preferredOrder (row_id a);
          safeIdxB = safeIdx preferredOrder (row_id b)
      in if safeIdxA \<noteq> safeIdxB then safeIdxA - safeIdxB \<le> 0
         else lc (row_label a) (row_label b) \<le> 0)"

definition orderRows ::
  "(string \<Rightarrow> string \<Rightarrow> int) \<Rightarrow> swatch list obj \<Rightarrow> string list \<Rightarrow> bool \<Rightarrow> row list" where
  "orderRows lc rowsMap preferredOrder keepLeadingZero =
     (let rowsArray =
            map (\<lambda>(family, swatches).
                   \<lparr>row_id = family, row_label = formatLabel family,
                    row_swatches = sort_key (\<lambda>s. parseNumericStep (sw_step s)) swatches\<rparr>)
              rowsMap;
          rowsArray = sort_by (row_le lc preferredOrder) rowsArray
      in if keepLeadingZero
         then map (\<lambda>r. r\<lparr>row_swatches :=
                            map (\<lambda>s. s\<lparr>sw_displayStep := padStart2 (sw_step s)\<rparr>)
                              (row_swatches r)\<rparr>) rowsArray
         else rowsArray)"

text \<open>The three builders (lines 138-189).\<close>

definition general_step :: "swatch list obj \<Rightarrow> string \<times> string \<Rightarrow> swatch list obj" where
  "general_step rows nv =
     (let name = fst nv; v = snd nv in
      if \<not> startsWith name ''--prism-color-general-'' then rows
      else if includes_str name ''-alpha-'' then rows
      else case match_family_step ''--prism-color-general-'' 2 3 name of
             None \<Rightarrow> rows
           | Some (family, step) \<Rightarrow> push_row rows family (buildSwatch step v name None))"

definition buildGeneralPalettes :: "(string \<Rightarrow> string \<Rightarrow> int) \<Rightarrow> vars \<Rightarrow> row list" where
  "buildGeneralPalettes lc vs = orderRows lc (foldl general_step [] vs) GENERAL_ORDER False"

definition alpha_step :: "swatch list obj \<Rightarrow> string \<times> string \<Rightarrow> swatch list obj" where
  "alpha_step rows nv =
     (let name = fst nv; v = snd nv in
      if \<not> startsWith name ''--prism-color-general-alpha-'' then rows
      else case match_family_step ''--prism-color-general-alpha-'' 2 3 name of
             None \<Rightarrow> rows
           | Some (family, step) \<Rightarrow> push_row rows family (buildSwatch step v name None))"

definition buildAlphaPalettes :: "(string \<Rightarrow> string \<Rightarrow> int) \<Rightarrow> vars \<Rightarrow> row list" where
  "buildAlphaPalettes lc vs = orderRows lc (foldl alpha_step [] vs) ALPHA_ORDER False"

definition chart_step :: "swatch list obj \<Rightarrow> string \<times> string \<Rightarrow> swatch list obj" where
  "chart_step rows nv =
     (let name = fst nv; v = snd nv in
      case match_family_step ''--prism-color-chart-sequential-'' 2 2 name of
        Some (family, step) \<Rightarrow> push_row rows family (buildSwatch step v name (Some step))
      | None \<Rightarrow>
          (case match_categorical name of
             Some step \<Rightarrow> push_row rows ''categorical'' (buildSwatch step v name (Some step))
           | None \<Rightarrow> rows))"

definition buildChartPalettes :: "(string \<Rightarrow> string \<Rightarrow> int) \<Rightarrow> vars \<Rightarrow> row list" where
  "buildChartPalettes lc vs = orderRows lc (foldl chart_step [] vs) CHART_ORDER True"

text \<open>A property of every swatch pushed to the rows so far.\<close>

definition rows_all :: "(swatch \<Rightarrow> bool) \<Rightarrow> swatch list obj \<Rightarrow> bool" where
  "rows_all Q rows = (\<forall>(f, sws) \<in> set rows. \<forall>sw \<in> set sws. Q sw)"


text \<open>
  The number a string of decimal digits denotes, by place value: the digit at index \<open>i\<close>
  counts ten to the number of digits after it.  It is written without reference to
  \<^verbatim>\<open>parseInt\<close>, and the steps of a row are compared with it.
\<close>

definition numeric_value :: "string \<Rightarrow> nat" where
  "numeric_value ds =
     sum_list (map (\<lambda>i. (of_char (ds ! i) - 48) * 10 ^ (length ds - Suc i)) [0..<length ds])"
section \<open>Token extraction engine\<close>

subsection \<open>Scanning helpers\<close>

text \<open>\<^verbatim>\<open>s.indexOf(p)\<close>: the first index at which \<open>p\<close> occurs, \<open>None\<close> for \<open>-1\<close>.\<close>

fun find_sub :: "string \<Rightarrow> string \<Rightarrow> nat option" where
  "find_sub p [] = (if p = [] then Some 0 else None)"
| "find_sub p (c # cs) =
     (if startsWith (c # cs) p then Some 0 else map_option Suc (find_sub p cs))"

text \<open>The text from each index on, in order: where a regular expression may start to match.\<close>

fun positions :: "string \<Rightarrow> string list" where
  "positions [] = [[]]"
| "positions (c # cs) = (c # cs) # positions cs"

definition is_line_terminator :: "char \<Rightarrow> bool" where
  "is_line_terminator c = (c = CHR 0x0A \<or> c = CHR 0x0D)"

text \<open>\<^verbatim>\<open>[\w-]\<close>\<close>

definition is_name_char :: "char \<Rightarrow> bool" where
  "is_name_char c = (is_lower c \<or> is_upper c \<or> is_digit c \<or> c = CHR ''_'' \<or> c = CHR ''-'')"

text \<open>
  \<^verbatim>\<open>s.replace(/\/\*[\s\S]*?\*\//g, rep)\<close> when \<open>dotall\<close>, and
  \<^verbatim>\<open>s.replace(/\/\*.*?\*\//g, rep)\<close> otherwise (there \<^verbatim>\<open>.\<close> stops at a line
  terminator).  A comment starts at \<^verbatim>\<open>/*\<close> and ends at the first \<^verbatim>\<open>*/\<close> after it; an
  opener with no such end is kept as text.
\<close>

fun replace_comments :: "bool \<Rightarrow> string \<Rightarrow> string \<Rightarrow> string" where
  "replace_comments dotall rep [] = []"
| "replace_comments dotall rep (c # cs) =
     (if startsWith (c # cs) ''/*'' then
        (case find_sub ''*/'' (drop 1 cs) of
           Some k \<Rightarrow>
             if dotall \<or> \<not> list_ex is_line_terminator (take k (drop 1 cs))
             then rep @ replace_comments dotall rep (drop (k + 3) cs)
             else c # replace_comments dotall rep cs
         | None \<Rightarrow> c # replace_comments dotall rep cs)
      else c # replace_comments dotall rep cs)"

text \<open>
  \<^verbatim>\<open>s.replace(/\n\s*\n/g, '\n')\<close>: from a line feed, the greedy \<^verbatim>\<open>\s*\<close> backs off to
  the last line feed of the white space that follows.
\<close>

fun collapse_blank_lines :: "string \<Rightarrow> string" where
  "collapse_blank_lines [] = []"
| "collapse_blank_lines (c # cs) =
     (if c = CHR 0x0A then
        (let w = takeWhile is_space cs in
         if CHR 0x0A \<in> set w
         then CHR 0x0A #
              collapse_blank_lines
                (drop (length w - length (takeWhile (\<lambda>x. x \<noteq> CHR 0x0A) (rev w))) cs)
         else c # collapse_blank_lines cs)
      else c # collapse_blank_lines cs)"

subsection \<open>Declarations of a block (TokenExplorerTool.parseCSSVarBlock)\<close>

text \<open>
  One attempt of \<^verbatim>\<open>/--([\w-]+)\s*:\s*([^;]+);/\<close> at the start of \<open>s\<close>: the two groups
  and the length of the match.  The name is the longest run of name characters (a shorter
  one would have to be followed by white space or a colon, and is followed by a name
  character).  The value group runs to the first semicolon, which must exist; the greedy
  \<^verbatim>\<open>\s*\<close> before it takes the leading white space, but leaves the group one character
  when the run is white space only.
\<close>

definition value_group :: "string \<Rightarrow> (string \<times> nat) option" where
  "value_group r =
     (let run = takeWhile (\<lambda>x. x \<noteq> CHR '';'') r in
      if run = [] \<or> length run = length r then None
      else let ws = takeWhile is_space run
           in Some (if ws = run then [last run] else drop (length ws) run, length run + 1))"

definition varRegex_at :: "string \<Rightarrow> (string \<times> string \<times> nat) option" where
  "varRegex_at s =
     (if \<not> startsWith s ''--'' then None
      else let nm = takeWhile is_name_char (drop 2 s);
               r2 = dropWhile is_space (drop (2 + length nm) s)
           in if nm = [] \<or> r2 = [] \<or> hd r2 \<noteq> CHR '':'' then None
              else case value_group (tl r2) of
                     None \<Rightarrow> None
                   | Some (m2, n) \<Rightarrow> Some (nm, m2, length s - length (tl r2) + n))"

text \<open>
  The \<^verbatim>\<open>while ((match = varRegex.exec(normalizedBlock)) !== null)\<close> loop (lines 849-860)
  on the text from \<^verbatim>\<open>lastIndex\<close> on; the state is \<^verbatim>\<open>vars\<close> and \<^verbatim>\<open>regexMatches\<close>.
\<close>

fun primary_loop :: "string \<Rightarrow> vars \<times> nat \<Rightarrow> vars \<times> nat" where
  "primary_loop [] st = st"
| "primary_loop (c # cs) st =
     (case varRegex_at (c # cs) of
        None \<Rightarrow> primary_loop cs st
      | Some (m1, m2, n) \<Rightarrow>
          (let name = ''--'' @ trim m1;
               v = trim m2;
               v = trim (replace_comments False [] v)
           in primary_loop (drop (n - 1) cs)
                (if name \<noteq> [] \<and> v \<noteq> [] then (obj_set (fst st) name v, snd st + 1) else st)))"

text \<open>
  One attempt of the separator
  \<^verbatim>\<open>/;\s*(?=\n|\r|$)|;\s*(?=\s*--)/\<close> at the start of \<open>s\<close>: the length of the match.
  First alternative: the white space after the semicolon up to the end of the text, or
  else up to its last line feed or carriage return.  Second alternative: all of the
  white space, when \<^verbatim>\<open>--\<close> follows it.
\<close>

definition sep_at :: "string \<Rightarrow> nat option" where
  "sep_at s =
     (if s = [] \<or> hd s \<noteq> CHR '';'' then None
      else let w = takeWhile is_space (tl s); after = drop (length w) (tl s)
           in if after = [] then Some (1 + length w)
              else if list_ex is_line_terminator w
              then Some (length w - length (takeWhile (\<lambda>x. \<not> is_line_terminator x) (rev w)))
              else if startsWith after ''--'' then Some (1 + length w)
              else None)"

text \<open>\<^verbatim>\<open>normalizedBlock.split(separator)\<close>: \<open>cur\<close> is the piece being read.\<close>

fun split_lines :: "string \<Rightarrow> string \<Rightarrow> string list" where
  "split_lines cur [] = [cur]"
| "split_lines cur (c # cs) =
     (case sep_at (c # cs) of
        None \<Rightarrow> split_lines (cur @ [c]) cs
      | Some n \<Rightarrow> cur # split_lines [] (drop (n - 1) cs))"

text \<open>The body of \<^verbatim>\<open>lines.forEach\<close> (lines 866-877).\<close>

definition fallback_line :: "vars \<Rightarrow> string \<Rightarrow> vars" where
  "fallback_line vs rawLine =
     (let line = trim rawLine in
      if \<not> startsWith line ''--'' then vs
      else case find_sub '':'' line of
             None \<Rightarrow> vs
           | Some idx \<Rightarrow>
               (let name = trim (take idx line); v = trim (drop (idx + 1) line)
                in if name = [] \<or> v = [] then vs else obj_set vs name v))"

definition normalizedBlock :: "string \<Rightarrow> string" where
  "normalizedBlock block = trim (collapse_blank_lines (replace_comments True [] block))"

definition primary_pass :: "string \<Rightarrow> vars \<times> nat" where
  "primary_pass block = primary_loop (normalizedBlock block) ([], 0)"

definition parseCSSVarBlock :: "string \<Rightarrow> vars" where
  "parseCSSVarBlock block =
     (let st = primary_pass block in
      if snd st < 500
      then foldl fallback_line (fst st) (split_lines [] (normalizedBlock block))
      else fst st)"

text \<open>What the fallback splitter finds by itself, starting from no declarations.\<close>

definition fallback_only :: "string \<Rightarrow> vars" where
  "fallback_only block = foldl fallback_line [] (split_lines [] (normalizedBlock block))"

subsection \<open>Blocks of a stylesheet (TokenExplorerTool.parseTokensCSS)\<close>

text \<open>
  \<^verbatim>\<open>extractBlockAt(startIdx)\<close> (lines 771-784) reads \<^verbatim>\<open>cssText\<close> from \<^verbatim>\<open>startIdx\<close> on
  only; that text is the argument.  \<open>close_index\<close> is the \<^verbatim>\<open>for\<close> loop from the first
  brace: the offset of the brace at which the depth is back to zero.
\<close>

fun close_index :: "int \<Rightarrow> string \<Rightarrow> nat option" where
  "close_index depth [] = None"
| "close_index depth (ch # cs) =
     (if ch = CHR ''{'' then map_option Suc (close_index (depth + 1) cs)
      else if ch = CHR ''}'' then
        (if depth - 1 = 0 then Some 0 else map_option Suc (close_index (depth - 1) cs))
      else map_option Suc (close_index depth cs))"

definition extractBlockAt :: "string \<Rightarrow> string" where
  "extractBlockAt s =
     (case find_sub ''{'' s of
        None \<Rightarrow> []
      | Some braceIdx \<Rightarrow>
          (case close_index 0 (drop braceIdx s) of
             None \<Rightarrow> []
           | Some i \<Rightarrow> take (i - 1) (drop (braceIdx + 1) s)))"

text \<open>One attempt of \<^verbatim>\<open>/:root\s*{/\<close> at the start of \<open>s\<close>: the length of the match.\<close>

definition rootRegex_at :: "string \<Rightarrow> nat option" where
  "rootRegex_at s =
     (if \<not> startsWith s '':root'' then None
      else let r = dropWhile is_space (drop 5 s)
           in if r \<noteq> [] \<and> hd r = CHR ''{'' then Some (length s - length r + 1) else None)"

text \<open>
  The loop over the \<^verbatim>\<open>:root\<close> blocks (lines 789-795); \<^verbatim>\<open>rootCount\<close> is only logged
  and left out.
\<close>

fun root_loop :: "string \<Rightarrow> vars \<Rightarrow> vars" where
  "root_loop [] root = root"
| "root_loop (c # cs) root =
     (case rootRegex_at (c # cs) of
        None \<Rightarrow> root_loop cs root
      | Some n \<Rightarrow>
          (let content = extractBlockAt (c # cs)
           in root_loop (drop (n - 1) cs)
                (if content \<noteq> [] then obj_assign root (parseCSSVarBlock content) else root)))"

text \<open>
  One attempt of \<^verbatim>\<open>/\[data-theme=([^\]]+)\]/\<close> at the start of \<open>s\<close>: the group and the
  length of the match.
\<close>

definition themeSelRegex_at :: "string \<Rightarrow> (string \<times> nat) option" where
  "themeSelRegex_at s =
     (if \<not> startsWith s ''[data-theme='' then None
      else let nm = takeWhile (\<lambda>x. x \<noteq> CHR '']'') (drop 12 s)
           in if nm = [] \<or> length nm = length (drop 12 s) then None
              else Some (nm, 12 + length nm + 1))"

text \<open>\<^verbatim>\<open>m[1].replace(/['\"]/g,'').trim()\<close>\<close>

definition theme_name :: "string \<Rightarrow> string" where
  "theme_name m1 = trim (filter (\<lambda>x. x \<noteq> CHR 0x27 \<and> x \<noteq> CHR 0x22) m1)"

text \<open>
  The names every object inherits from \<^verbatim>\<open>Object.prototype\<close>.  For such a name
  \<^verbatim>\<open>map[rawName]\<close> is the inherited member, which is truthy: line 806 creates no entry,
  and \<^verbatim>\<open>Object.assign\<close> (line 807) writes the declarations onto the inherited member,
  not into \<^verbatim>\<open>map\<close>.
\<close>

definition Object_prototype_members :: "string list" where
  "Object_prototype_members =
     [''constructor'', ''__defineGetter__'', ''__defineSetter__'', ''hasOwnProperty'',
      ''__lookupGetter__'', ''__lookupSetter__'', ''isPrototypeOf'', ''propertyIsEnumerable'',
      ''toString'', ''valueOf'', ''__proto__'', ''toLocaleString'']"

text \<open>
  The loop over the theme selectors (lines 800-809); the state is \<^verbatim>\<open>seen\<close> and the own
  properties of \<^verbatim>\<open>map\<close>.  \<open>store_theme\<close> is lines 805-808.  For the name
  \<^verbatim>\<open>__proto__\<close> the inherited member is \<^verbatim>\<open>Object.prototype\<close> itself: the declarations
  written onto it are inherited by every object, also by \<^verbatim>\<open>map\<close> and \<^verbatim>\<open>map.root\<close>, whose
  later reads (lines 806 and 812) then see them.  The own properties of \<^verbatim>\<open>map\<close> stay as
  modelled; what is read through the prototype after such a block is not modelled, and
  the statements that depend on those reads leave out texts with a selector of that name.
\<close>

definition store_theme :: "vars obj \<Rightarrow> string \<Rightarrow> string \<Rightarrow> vars obj" where
  "store_theme m rawName content =
     (if content \<noteq> [] then
        (if rawName \<in> set Object_prototype_members then m
         else
           (let m = (if obj_get m rawName = None then obj_set m rawName [] else m)
            in obj_set m rawName
                 (obj_assign (or_empty (obj_get m rawName)) (parseCSSVarBlock content))))
      else m)"

fun theme_loop :: "string \<Rightarrow> string list \<times> vars obj \<Rightarrow> string list \<times> vars obj" where
  "theme_loop [] st = st"
| "theme_loop (c # cs) st =
     (case themeSelRegex_at (c # cs) of
        None \<Rightarrow> theme_loop cs st
      | Some (m1, n) \<Rightarrow>
          (let rawName = theme_name m1 in
           if rawName = [] \<or> rawName \<in> set (fst st) then theme_loop (drop (n - 1) cs) st
           else theme_loop (drop (n - 1) cs)
                  (rawName # fst st, store_theme (snd st) rawName (extractBlockAt (c # cs)))))"

text \<open>
  The probe fallback (lines 811-815): the first match of
  \<^verbatim>\<open>probeName\s*:\s*([^;]+);\<close> in the whole text.
\<close>

definition probeName :: string where
  "probeName = ''--prism-color-chart-accent-primary-figure-default''"

definition probe_at :: "string \<Rightarrow> string option" where
  "probe_at s =
     (if \<not> startsWith s probeName then None
      else let r2 = dropWhile is_space (drop (length probeName) s)
           in if r2 = [] \<or> hd r2 \<noteq> CHR '':'' then None
              else map_option fst (value_group (tl r2)))"

fun probe_match :: "string \<Rightarrow> string option" where
  "probe_match [] = None"
| "probe_match (c # cs) =
     (case probe_at (c # cs) of Some m1 \<Rightarrow> Some m1 | None \<Rightarrow> probe_match cs)"

definition probe_fallback :: "string \<Rightarrow> vars obj \<Rightarrow> vars obj" where
  "probe_fallback cssText m =
     (let root = or_empty (obj_get m ''root'') in
      if (obj_get root probeName = None \<or> obj_get root probeName = Some []) \<and>
         includes_str cssText (probeName @ '':'')
      then (case probe_match cssText of
              Some m1 \<Rightarrow> obj_set m ''root'' (obj_set root probeName (trim m1))
            | None \<Rightarrow> m)
      else m)"

definition parseTokensCSS :: "string \<Rightarrow> vars obj" where
  "parseTokensCSS cssText =
     (let m = [(''root'', root_loop cssText [])];
          m = snd (theme_loop cssText ([], m))
      in probe_fallback cssText m)"

subsection \<open>The palette explorer's extraction (PalettesExplorerApp.extractCSSVars)\<close>

text \<open>
  \<^verbatim>\<open>parseVarBlock\<close> (lines 122-132): comments become a space, then every match of
  \<^verbatim>\<open>/(--[\w-]+)\s*:\s*([^;]+);/g\<close> is stored, trimmed, with no test for emptiness.
\<close>

fun parseVarBlock_loop :: "string \<Rightarrow> vars \<Rightarrow> vars" where
  "parseVarBlock_loop [] vs = vs"
| "parseVarBlock_loop (c # cs) vs =
     (case varRegex_at (c # cs) of
        None \<Rightarrow> parseVarBlock_loop cs vs
      | Some (m1, m2, n) \<Rightarrow>
          parseVarBlock_loop (drop (n - 1) cs) (obj_set vs (trim (''--'' @ m1)) (trim m2)))"

definition parseVarBlock :: "string \<Rightarrow> vars" where
  "parseVarBlock block = parseVarBlock_loop (replace_comments True '' '' block) []"

text \<open>
  \<^verbatim>\<open>cssText.match(/:root\s*\{([\s\S]*?)\}/)\<close>: the first place where the selector
  matches and a closing brace follows; the group ends at the first closing brace.
\<close>

definition rootBlock_at :: "string \<Rightarrow> string option" where
  "rootBlock_at s =
     (case rootRegex_at s of
        None \<Rightarrow> None
      | Some n \<Rightarrow>
          (let body = takeWhile (\<lambda>x. x \<noteq> CHR ''}'') (drop n s)
           in if length body = length (drop n s) then None else Some body))"

fun rootMatch :: "string \<Rightarrow> string option" where
  "rootMatch [] = None"
| "rootMatch (c # cs) =
     (case rootBlock_at (c # cs) of Some body \<Rightarrow> Some body | None \<Rightarrow> rootMatch cs)"

text \<open>
  The theme pattern is built from a template literal,
  \<^verbatim>\<open>`${escapedSelector}\\s*\\{([\s\S]*?)\}`\<close>, in which \<^verbatim>\<open>\s\<close>, \<^verbatim>\<open>\S\<close> and \<^verbatim>\<open>\}\<close> are
  the letters \<^verbatim>\<open>s\<close>, \<^verbatim>\<open>S\<close> and a brace: the regular expression is the selector,
  \<^verbatim>\<open>\s*\{\<close>, then \<^verbatim>\<open>([sS]*?)}\<close>.  The escaped selector matches the selector text itself.
\<close>

definition themeRegex_at :: "string \<Rightarrow> string \<Rightarrow> (string \<times> nat) option" where
  "themeRegex_at themeSelector s =
     (if \<not> startsWith s themeSelector then None
      else let r = dropWhile is_space (drop (length themeSelector) s)
           in if r = [] \<or> hd r \<noteq> CHR ''{'' then None
              else let body = takeWhile (\<lambda>x. x = CHR ''s'' \<or> x = CHR ''S'') (tl r);
                       r3 = drop (length body) (tl r)
                   in if r3 = [] \<or> hd r3 \<noteq> CHR ''}'' then None
                      else Some (body, length s - length r3 + 1))"

fun overrides_loop :: "string \<Rightarrow> string \<Rightarrow> vars \<Rightarrow> vars" where
  "overrides_loop sel [] ov = ov"
| "overrides_loop sel (c # cs) ov =
     (case themeRegex_at sel (c # cs) of
        None \<Rightarrow> overrides_loop sel cs ov
      | Some (body, n) \<Rightarrow> overrides_loop sel (drop (n - 1) cs) (obj_assign ov (parseVarBlock body)))"

record css_vars =
  rootVars :: vars
  overrides :: vars

definition extractCSSVars :: "string \<Rightarrow> string \<Rightarrow> css_vars" where
  "extractCSSVars cssText theme =
     \<lparr>rootVars = (case rootMatch cssText of
                    Some body \<Rightarrow> obj_assign [] (parseVarBlock body)
                  | None \<Rightarrow> []),
      overrides = (if theme \<noteq> ''light''
                   then overrides_loop ('':root[data-theme='' @ [CHR 0x27] @ theme @ [CHR 0x27] @ '']'')
                          cssText []
                   else [])\<rparr>"

subsection \<open>Reading the loops\<close>

text \<open>
  The matches the theme loop visits, in order: the cleaned theme name with the text from
  the match on (the search resumes after each match).  \<open>theme_step\<close> is the loop body.
\<close>

fun theme_matches :: "string \<Rightarrow> (string \<times> string) list" where
  "theme_matches [] = []"
| "theme_matches (c # cs) =
     (case themeSelRegex_at (c # cs) of
        None \<Rightarrow> theme_matches cs
      | Some (m1, n) \<Rightarrow> (theme_name m1, c # cs) # theme_matches (drop (n - 1) cs))"

definition theme_step :: "string list \<times> vars obj \<Rightarrow> string \<times> string \<Rightarrow> string list \<times> vars obj" where
  "theme_step st ms =
     (if fst ms = [] \<or> fst ms \<in> set (fst st) then st
      else (fst ms # fst st, store_theme (snd st) (fst ms) (extractBlockAt (snd ms))))"

text \<open>
  The base blocks of a stylesheet as the specification words them: at every place where
  the root selector matches, the body extracted by brace depth; and their merge in
  encounter order, empty bodies left out.
\<close>

definition base_blocks :: "string \<Rightarrow> string list" where
  "base_blocks cssText =
     map extractBlockAt (filter (\<lambda>s. rootRegex_at s \<noteq> None) (positions cssText))"

definition merge_block :: "vars \<Rightarrow> string \<Rightarrow> vars" where
  "merge_block root content =
     (if content \<noteq> [] then obj_assign root (parseCSSVarBlock content) else root)"

definition merge_blocks :: "vars \<Rightarrow> string list \<Rightarrow> vars" where
  "merge_blocks root blocks = foldl merge_block root blocks"

text \<open>
  Brace depth as the specification words it.  The balance of a text is the number of its
  opening braces minus the number of its closing braces.  A text has open prefixes when
  none of its prefixes closes more braces than it opens: a block body with balance zero
  and open prefixes is closed by the brace right after it and by none inside it.
\<close>

definition brace_balance :: "string \<Rightarrow> int" where
  "brace_balance cs =
     int (length (filter (\<lambda>c. c = CHR ''{'') cs)) - int (length (filter (\<lambda>c. c = CHR ''}'') cs))"

definition open_prefixes :: "string \<Rightarrow> bool" where
  "open_prefixes cs = list_all (\<lambda>n. 0 \<le> brace_balance (take n cs)) [0..<Suc (length cs)]"

section \<open>Facts about strings and objects\<close>

lemma map_of_obj_set: "map_of (obj_set ob k v) = (map_of ob)(k \<mapsto> v)"
  by (induction ob) auto

lemma obj_get_obj_set: "obj_get (obj_set ob k v) k' = (if k' = k then Some v else obj_get ob k')"
  by (simp add: obj_get_def map_of_obj_set)

lemma obj_keys_obj_set:
  "obj_keys (obj_set ob k v) = (if k \<in> set (obj_keys ob) then obj_keys ob else obj_keys ob @ [k])"
  by (induction ob) (auto simp: obj_keys_def rev_image_eqI)

lemma set_obj_keys_obj_set: "set (obj_keys (obj_set ob k v)) = insert k (set (obj_keys ob))"
  by (auto simp: obj_keys_obj_set)

lemma distinct_obj_set: "distinct (obj_keys ob) \<Longrightarrow> distinct (obj_keys (obj_set ob k v))"
  by (simp add: obj_keys_obj_set)

lemma obj_get_None_iff: "obj_get ob k = None \<longleftrightarrow> k \<notin> set (obj_keys ob)"
  by (simp add: obj_get_def obj_keys_def map_of_eq_None_iff)

lemma map_of_obj_assign:
  "distinct (obj_keys b) \<Longrightarrow> map_of (obj_assign a b) = map_of a ++ map_of b"
  unfolding obj_assign_def obj_keys_def
proof (induction b arbitrary: a)
  case Nil
  then show ?case by simp
next
  case (Cons kv b)
  obtain k v where kv: "kv = (k, v)" by (cases kv)
  from Cons.prems kv have nk: "map_of b k = None" and d: "distinct (map fst b)"
    by (auto simp: map_of_eq_None_iff)
  have "map_of (foldl (\<lambda>t (k, v). obj_set t k v) (obj_set a k v) b) = map_of (obj_set a k v) ++ map_of b"
    using Cons.IH [OF d] .
  also have "\<dots> = map_of a ++ map_of ((k, v) # b)"
    by (rule ext) (simp add: map_of_obj_set map_add_def nk split: option.splits)
  finally show ?case by (simp only: kv foldl_Cons prod.case)
qed

lemma obj_get_obj_assign:
  "distinct (obj_keys b) \<Longrightarrow>
   obj_get (obj_assign a b) k = (case obj_get b k of Some v \<Rightarrow> Some v | None \<Rightarrow> obj_get a k)"
  by (simp add: obj_get_def map_of_obj_assign map_add_def split: option.splits)

lemma distinct_obj_assign: "distinct (obj_keys a) \<Longrightarrow> distinct (obj_keys (obj_assign a b))"
  unfolding obj_assign_def
  by (induction b arbitrary: a) (auto simp: distinct_obj_set)

lemma set_obj_keys_obj_assign: "set (obj_keys (obj_assign a b)) = set (obj_keys a) \<union> set (obj_keys b)"
  unfolding obj_assign_def
proof (induction b arbitrary: a)
  case Nil
  then show ?case by (simp add: obj_keys_def)
next
  case (Cons kv b)
  show ?case by (cases kv) (simp add: Cons.IH set_obj_keys_obj_set, simp add: obj_keys_def)
qed

lemma obj_get_spread2:
  "distinct (obj_keys a) \<Longrightarrow> distinct (obj_keys b) \<Longrightarrow>
   obj_get (spread2 a b) k = (case obj_get b k of Some v \<Rightarrow> Some v | None \<Rightarrow> obj_get a k)"
  by (simp add: spread2_def obj_get_obj_assign split: option.splits) (simp add: obj_get_def)

lemma distinct_spread2: "distinct (obj_keys (spread2 a b))"
proof -
  have "distinct (obj_keys ([] :: 'a obj))" by (simp add: obj_keys_def)
  then show ?thesis unfolding spread2_def by (intro distinct_obj_assign)
qed

lemma obj_keys_Nil: "obj_keys [] = []"
  by (simp add: obj_keys_def)

lemma obj_keys_Cons: "obj_keys ((k, v) # ob) = k # obj_keys ob"
  by (simp add: obj_keys_def)

lemma set_obj_set_subset: "set (obj_set ob k v) \<subseteq> insert (k, v) (set ob)"
  by (induction ob) (auto split: if_splits)

lemma obj_get_SomeD: "obj_get ob k = Some v \<Longrightarrow> (k, v) \<in> set ob"
  by (simp add: obj_get_def map_of_SomeD)

lemma startsWith_append: "startsWith n (p @ q) \<Longrightarrow> startsWith n p"
  unfolding startsWith_def
  by (metis append_eq_conv_conj take_take append_take_drop_id)

lemma startsWith_hd: "startsWith n p \<Longrightarrow> p \<noteq> [] \<Longrightarrow> n \<noteq> [] \<and> hd n = hd p"
  unfolding startsWith_def by (cases n; cases p) auto

lemma distinct_foldl_sets:
  assumes "\<And>acc x. distinct (obj_keys acc) \<Longrightarrow> distinct (obj_keys (f acc x))"
  shows "distinct (obj_keys a) \<Longrightarrow> distinct (obj_keys (foldl f a xs))"
  using assms by (induction xs arbitrary: a) simp_all

section \<open>Theme resolution\<close>

text \<open>
  C4.  In the effective map of a theme (the spread of line 144, base map first, overrides
  second), a property that has an override entry has the override value, and a property
  without one keeps its base value.  The two objects have each key once, as every
  JavaScript object does.
\<close>

theorem effective_override_precedence:
  assumes "distinct (obj_keys (or_empty (obj_get rawMap ''root'')))"
      and "distinct (obj_keys (or_empty (obj_get rawMap theme)))"
  shows "(obj_get (or_empty (obj_get rawMap theme)) p = Some v \<longrightarrow>
            obj_get (effective_map rawMap theme) p = Some v) \<and>
         (obj_get (or_empty (obj_get rawMap theme)) p = None \<longrightarrow>
            obj_get (effective_map rawMap theme) p =
              obj_get (or_empty (obj_get rawMap ''root'')) p)"
  using assms by (simp add: effective_map_def obj_get_spread2)

theorem effective_override_precedence_witness:
  "obj_get (effective_map
      [(''root'', [(''--prism-spacing-sm'', ''4px''), (''--prism-spacing-md'', ''8px'')]),
       (''dark'', [(''--prism-spacing-sm'', ''6px'')])] ''dark'') ''--prism-spacing-sm''
     = Some ''6px'' \<and>
   obj_get (effective_map
      [(''root'', [(''--prism-spacing-sm'', ''4px''), (''--prism-spacing-md'', ''8px'')]),
       (''dark'', [(''--prism-spacing-sm'', ''6px'')])] ''dark'') ''--prism-spacing-md''
     = Some ''8px''"
  using effective_override_precedence
          [of "[(''root'', [(''--prism-spacing-sm'', ''4px''), (''--prism-spacing-md'', ''8px'')]),
                (''dark'', [(''--prism-spacing-sm'', ''6px'')])]" "''dark''"
              "''--prism-spacing-sm''" "''6px''"]
        effective_override_precedence
          [of "[(''root'', [(''--prism-spacing-sm'', ''4px''), (''--prism-spacing-md'', ''8px'')]),
                (''dark'', [(''--prism-spacing-sm'', ''6px'')])]" "''dark''"
              "''--prism-spacing-md''" "''6px''"]
  by (simp add: obj_get_def or_empty_def obj_keys_def)

section \<open>The classifier files each name under one slot\<close>

lemma get_put_slot: "get_slot s (put_slot s' x g) = (if s = s' then x else get_slot s g)"
  by (cases s; cases s'; simp)

lemma categorize_route:
  "categorize g (n, v) =
     (if \<not> startsWith n ''--'' then g
      else case route n of
             None \<Rightarrow> g
           | Some (s, ty) \<Rightarrow> put_slot s (obj_set (get_slot s g) n ((mk_token n v)\<lparr>tok_type := ty\<rparr>)) g)"
proof -
  define p0 where "p0 = startsWith n ''--''"
  define p1 where "p1 = startsWith n ''--prism-color-''"
  define p2 where "p2 = startsWith n ''--prism-color-chart-''"
  define p3 where "p3 = startsWith n ''--prism-color-chart-categorical-''"
  define p4 where "p4 = startsWith n ''--prism-color-chart-sequential-''"
  define p5 where "p5 = startsWith n ''--prism-color-interactive-''"
  define p6 where "p6 = startsWith n ''--prism-color-background-''"
  define p7 where "p7 = startsWith n ''--prism-color-text-''"
  define p8 where "p8 = startsWith n ''--prism-color-icon-''"
  define p9 where "p9 = startsWith n ''--prism-color-border-''"
  define p10 where "p10 = startsWith n ''--prism-color-outline-''"
  define p11 where "p11 = startsWith n ''--prism-color-elevation-''"
  define p12 where "p12 = startsWith n ''--prism-gradient-''"
  define p13 where "p13 = includes_str n ''interactive''"
  define p14 where "p14 = startsWith n ''--prism-typography-''"
  define p15 where "p15 = startsWith n ''--prism-spacing-''"
  define p16 where "p16 = startsWith n ''--prism-shadow-''"
  define p17 where "p17 = startsWith n ''--prism-radius-''"
  define p18 where "p18 = startsWith n ''--prism-border-radius-''"
  define p19 where "p19 = startsWith n ''--border-radius-''"
  define p20 where "p20 = startsWith n ''--color-''"
  define t0 where "t0 = mk_token n v"
  define tc where "tc = t0\<lparr>tok_type := ''color''\<rparr>"
  define tg where "tg = t0\<lparr>tok_type := ''gradient''\<rparr>"
  define tt where "tt = t0\<lparr>tok_type := ''typography''\<rparr>"
  define ts where "ts = t0\<lparr>tok_type := ''spacing''\<rparr>"
  define tsh where "tsh = t0\<lparr>tok_type := ''shadow''\<rparr>"
  define tb where "tb = t0\<lparr>tok_type := ''border-radius''\<rparr>"
  define tv where "tv = t0\<lparr>tok_type := tokenType n\<rparr>"
  have tv0: "t0 = tv" by (simp add: tv_def t0_def mk_token_def)
  have L: "categorize g (n, v) =
     (if \<not> p0 then g
      else if p1 then
         (if p2 then (if \<not> p3 \<and> \<not> p4 then put_slot SChart (obj_set (get_slot SChart g) n tc) g else g)
         else if p5 then put_slot SInteractive (obj_set (get_slot SInteractive g) n tc) g
         else if p6 then put_slot SBackground (obj_set (get_slot SBackground g) n tc) g
         else if p7 then put_slot SText (obj_set (get_slot SText g) n tc) g
         else if p8 then put_slot SIcon (obj_set (get_slot SIcon g) n tc) g
         else if p9 \<or> p10 then put_slot SBorder (obj_set (get_slot SBorder g) n tc) g
         else if p11 then put_slot SElevation (obj_set (get_slot SElevation g) n tc) g
         else g)
      else if p12 then
        (if p13 then put_slot SGInteractive (obj_set (get_slot SGInteractive g) n tg) g
         else put_slot SGeneral (obj_set (get_slot SGeneral g) n tg) g)
      else if p14 then put_slot STypography (obj_set (get_slot STypography g) n tt) g
      else if p15 then put_slot SSpacing (obj_set (get_slot SSpacing g) n ts) g
      else if p16 then put_slot SShadows (obj_set (get_slot SShadows g) n tsh) g
      else if p17 \<or> p18 \<or> p19 then put_slot SBorder_Radius (obj_set (get_slot SBorder_Radius g) n tb) g
      else if p20 then put_slot SLegacy (obj_set (get_slot SLegacy g) n tc) g
      else put_slot SOther (obj_set (get_slot SOther g) n tv) g)"
    unfolding categorize_def Let_def fst_conv snd_conv get_slot.simps put_slot.simps
      p0_def p1_def p2_def p3_def p4_def p5_def p6_def p7_def p8_def p9_def p10_def
      p11_def p12_def p13_def p14_def p15_def p16_def p17_def p18_def p19_def p20_def
      tc_def tg_def tt_def ts_def tsh_def tb_def tv0[symmetric] t0_def
    by (rule refl)
  have R: "route n =
     (if p1 then
        (if p2 then (if \<not> p3 \<and> \<not> p4 then Some (SChart, ''color'') else None)
         else if p5 then Some (SInteractive, ''color'')
         else if p6 then Some (SBackground, ''color'')
         else if p7 then Some (SText, ''color'')
         else if p8 then Some (SIcon, ''color'')
         else if p9 \<or> p10 then Some (SBorder, ''color'')
         else if p11 then Some (SElevation, ''color'')
         else None)
      else if p12 then
        (if p13 then Some (SGInteractive, ''gradient'') else Some (SGeneral, ''gradient''))
      else if p14 then Some (STypography, ''typography'')
      else if p15 then Some (SSpacing, ''spacing'')
      else if p16 then Some (SShadows, ''shadow'')
      else if p17 \<or> p18 \<or> p19 then Some (SBorder_Radius, ''border-radius'')
      else if p20 then Some (SLegacy, ''color'')
      else Some (SOther, tokenType n))"
    unfolding route_def
      p0_def p1_def p2_def p3_def p4_def p5_def p6_def p7_def p8_def p9_def p10_def
      p11_def p12_def p13_def p14_def p15_def p16_def p17_def p18_def p19_def p20_def
    by (rule refl)
  show ?thesis
    unfolding L R p0_def[symmetric] t0_def[symmetric]
    by (simp del: put_slot.simps get_slot.simps
          add: tc_def tg_def tt_def ts_def tsh_def tb_def tv_def)
qed

lemma get_slot_categorize:
  "get_slot s (categorize g (n, v)) =
     (if startsWith n ''--'' \<and> map_option fst (route n) = Some s
      then obj_set (get_slot s g) n ((mk_token n v)\<lparr>tok_type := snd (the (route n))\<rparr>)
      else get_slot s g)"
  unfolding categorize_route
  by (cases "route n") (auto simp: get_put_slot simp del: put_slot.simps get_slot.simps)

lemma keys_get_slot_fold:
  "set (obj_keys (get_slot s (foldl categorize g es))) =
     set (obj_keys (get_slot s g)) \<union>
     {n \<in> fst ` set es. startsWith n ''--'' \<and> map_option fst (route n) = Some s}"
proof (induction es arbitrary: g)
  case Nil
  then show ?case by simp
next
  case (Cons e es)
  obtain n v where e: "e = (n, v)" by (cases e)
  show ?case
    unfolding foldl_Cons Cons.IH e get_slot_categorize
    by (auto simp: set_obj_keys_obj_set)
qed

lemma get_slot_empty: "get_slot s empty_grouped = []"
  by (cases s) (simp_all add: empty_grouped_def)

lemma get_slot_All_update: "get_slot s (g\<lparr>All_tokens := x\<rparr>) = get_slot s g"
  by (cases s) simp_all

lemma keys_get_slot_group_theme:
  "set (obj_keys (get_slot s (group_theme eff))) =
     {n \<in> set (obj_keys eff). startsWith n ''--'' \<and> map_option fst (route n) = Some s}"
  by (simp add: group_theme_def Let_def get_slot_All_update keys_get_slot_fold get_slot_empty
        del: get_slot.simps) (simp add: obj_keys_def)

lemma filter_all_slots:
  "filter (\<lambda>s. r = Some s) all_slots = (case r of None \<Rightarrow> [] | Some s \<Rightarrow> [s])"
proof (cases r)
  case None
  then show ?thesis by simp
next
  case (Some s)
  then show ?thesis by (cases s) (simp_all add: all_slots_def)
qed

lemma route_None_iff: "route n = None \<longleftrightarrow> excluded_color n"
  by (simp add: route_def excluded_color_def)

lemma slot_count_group_theme:
  assumes "n \<in> set (obj_keys eff)" and "startsWith n ''--''"
  shows "slot_count (group_theme eff) n = (if excluded_color n then 0 else 1)"
proof -
  have "slot_count (group_theme eff) n =
          length (filter (\<lambda>s. n \<in> set (obj_keys (get_slot s (group_theme eff)))) all_slots)"
    by (simp add: slot_count_def leaf_slots_def filter_map o_def obj_get_None_iff
          del: get_slot.simps)
  also have "\<dots> = length (filter (\<lambda>s. map_option fst (route n) = Some s) all_slots)"
    using assms by (simp add: keys_get_slot_group_theme del: get_slot.simps)
  also have "\<dots> = (if excluded_color n then 0 else 1)"
    unfolding filter_all_slots route_None_iff [symmetric]
    by (cases "route n") auto
  finally show ?thesis .
qed

lemma tokens_ok_obj_set:
  "tokens_ok ob \<Longrightarrow> tok_name t = k \<Longrightarrow> tok_raw t = tok_value t \<Longrightarrow> tokens_ok (obj_set ob k t)"
  using set_obj_set_subset [of ob k t] by (auto simp: tokens_ok_def)

lemma tokens_ok_get_slot_categorize:
  "tokens_ok (get_slot s g) \<Longrightarrow> tokens_ok (get_slot s (categorize g (n, v)))"
  unfolding get_slot_categorize
  by (auto intro!: tokens_ok_obj_set simp: mk_token_def simp del: get_slot.simps)

lemma tokens_ok_get_slot_fold:
  "tokens_ok (get_slot s g) \<Longrightarrow> tokens_ok (get_slot s (foldl categorize g es))"
proof (induction es arbitrary: g)
  case Nil
  then show ?case by simp
next
  case (Cons e es)
  then show ?case
    by (cases e) (simp add: tokens_ok_get_slot_categorize del: get_slot.simps)
qed

lemma tokens_ok_group_theme: "tokens_ok (get_slot s (group_theme eff))"
proof -
  have "tokens_ok (get_slot s empty_grouped)"
    by (simp add: get_slot_empty tokens_ok_def del: get_slot.simps)
  then show ?thesis
    by (simp add: group_theme_def Let_def get_slot_All_update tokens_ok_get_slot_fold
          del: get_slot.simps)
qed

lemma entries_ok_obj_set_Token:
  "entries_ok a \<Longrightarrow> tok_name t = k \<Longrightarrow> tok_raw t = tok_value t \<Longrightarrow>
   entries_ok (obj_set a k (Token t))"
  using set_obj_set_subset [of a k "Token t"] by (auto simp: entries_ok_def)

lemma entries_ok_obj_set_Field:
  "entries_ok a \<Longrightarrow> k \<in> {''name'', ''raw'', ''type'', ''value''} \<Longrightarrow>
   entries_ok (obj_set a k (Field x))"
  using set_obj_set_subset [of a k "Field x"] unfolding entries_ok_def
  by (fastforce split: all_entry.splits)

lemma entries_ok_add_tokens_aux:
  "entries_ok a \<Longrightarrow> tokens_ok sub \<Longrightarrow>
   entries_ok (foldl (\<lambda>acc tokenName.
              case obj_get sub tokenName of
                Some t \<Rightarrow> obj_set acc tokenName (Token t)
              | None \<Rightarrow> acc) a ks)"
proof (induction ks arbitrary: a)
  case Nil
  then show ?case by simp
next
  case (Cons k ks)
  show ?case
  proof (cases "obj_get sub k")
    case None
    then show ?thesis using Cons by simp
  next
    case (Some t)
    then have "(k, t) \<in> set sub" by (rule obj_get_SomeD)
    with Cons.prems(2) have "tok_name t = k" "tok_raw t = tok_value t"
      by (auto simp: tokens_ok_def)
    then have "entries_ok (obj_set a k (Token t))"
      using Cons.prems(1) by (intro entries_ok_obj_set_Token)
    then show ?thesis using Cons.IH Cons.prems(2) Some by simp
  qed
qed

lemma entries_ok_add_tokens:
  "entries_ok a \<Longrightarrow> tokens_ok sub \<Longrightarrow> entries_ok (add_tokens a sub)"
  unfolding add_tokens_def by (rule entries_ok_add_tokens_aux)

lemma entries_ok_add_fields: "entries_ok a \<Longrightarrow> entries_ok (add_fields a t)"
  unfolding add_fields_def
  by (simp add: entries_ok_obj_set_Field)

lemma entries_ok_add_flat_category:
  "entries_ok a \<Longrightarrow> entries_ok (add_flat_category a cat)"
  unfolding add_flat_category_def
  by (induction cat arbitrary: a) (simp_all add: entries_ok_add_fields)

lemma entries_ok_add_uncategorized:
  "entries_ok a \<Longrightarrow> tokens_ok p \<Longrightarrow> entries_ok (add_uncategorized a p)"
  unfolding add_uncategorized_def
proof (induction p arbitrary: a)
  case Nil
  then show ?case by simp
next
  case (Cons nt p)
  obtain n t where nt: "nt = (n, t)" by (cases nt)
  from Cons.prems(2) nt have t: "tok_name t = n" "tok_raw t = tok_value t" and p: "tokens_ok p"
    by (auto simp: tokens_ok_def)
  show ?case
    using Cons.IH [OF _ p] Cons.prems(1) t
    by (simp add: nt entries_ok_obj_set_Token)
qed

lemma tokens_ok_allProcessedTokens_aux:
  "tokens_ok acc \<Longrightarrow>
   tokens_ok (foldl (\<lambda>acc nv. if startsWith (fst nv) ''--''
                      then obj_set acc (fst nv) (mk_token (fst nv) (snd nv)) else acc) acc eff)"
  by (induction eff arbitrary: acc) (simp_all add: tokens_ok_obj_set mk_token_def)

lemma tokens_ok_allProcessedTokens: "tokens_ok (allProcessedTokens eff)"
  unfolding allProcessedTokens_def
  by (rule tokens_ok_allProcessedTokens_aux) (simp add: tokens_ok_def)

lemma entries_ok_foldl_add_tokens:
  "entries_ok a \<Longrightarrow> \<forall>s \<in> set subs. tokens_ok s \<Longrightarrow> entries_ok (foldl add_tokens a subs)"
  by (induction subs arbitrary: a) (simp_all add: entries_ok_add_tokens)

lemma entries_ok_foldl_add_flat:
  "entries_ok a \<Longrightarrow> entries_ok (foldl add_flat_category a cats)"
  by (induction cats arbitrary: a) (simp_all add: entries_ok_add_flat_category)

lemma tokens_ok_fields:
  "tokens_ok (Interactive (Colors (group_theme eff)))"
  "tokens_ok (Background (Colors (group_theme eff)))"
  "tokens_ok (Text (Colors (group_theme eff)))"
  "tokens_ok (Icon (Colors (group_theme eff)))"
  "tokens_ok (Border (Colors (group_theme eff)))"
  "tokens_ok (Elevation (Colors (group_theme eff)))"
  "tokens_ok (Chart (Colors (group_theme eff)))"
  "tokens_ok (Legacy (Colors (group_theme eff)))"
  "tokens_ok (GInteractive (Gradients (group_theme eff)))"
  "tokens_ok (General (Gradients (group_theme eff)))"
  using tokens_ok_group_theme [of SInteractive eff] tokens_ok_group_theme [of SBackground eff]
    tokens_ok_group_theme [of SText eff] tokens_ok_group_theme [of SIcon eff]
    tokens_ok_group_theme [of SBorder eff] tokens_ok_group_theme [of SElevation eff]
    tokens_ok_group_theme [of SChart eff] tokens_ok_group_theme [of SLegacy eff]
    tokens_ok_group_theme [of SGInteractive eff] tokens_ok_group_theme [of SGeneral eff]
  by simp_all

lemma distinct_add_tokens: "distinct (obj_keys a) \<Longrightarrow> distinct (obj_keys (add_tokens a sub))"
  unfolding add_tokens_def
  by (rule distinct_foldl_sets) (auto simp: distinct_obj_set split: option.splits)

lemma distinct_add_fields: "distinct (obj_keys a) \<Longrightarrow> distinct (obj_keys (add_fields a t))"
  unfolding add_fields_def
  by (rule distinct_foldl_sets) (auto simp: distinct_obj_set)

lemma distinct_add_flat_category:
  "distinct (obj_keys a) \<Longrightarrow> distinct (obj_keys (add_flat_category a cat))"
  unfolding add_flat_category_def
  by (rule distinct_foldl_sets) (rule distinct_add_fields)

lemma distinct_add_uncategorized:
  "distinct (obj_keys a) \<Longrightarrow> distinct (obj_keys (add_uncategorized a p))"
  unfolding add_uncategorized_def
  by (rule distinct_foldl_sets) (auto simp: distinct_obj_set)

lemma distinct_orderedAllVariables: "distinct (obj_keys (orderedAllVariables g eff))"
  unfolding orderedAllVariables_def Let_def
  by (intro distinct_add_uncategorized distinct_foldl_sets distinct_add_flat_category
        distinct_add_tokens) (simp_all add: obj_keys_def)

lemma keys_add_uncategorized:
  "set (obj_keys (add_uncategorized a p)) = set (obj_keys a) \<union> set (obj_keys p)"
  unfolding add_uncategorized_def
proof (induction p arbitrary: a)
  case Nil
  then show ?case by (simp add: obj_keys_Nil)
next
  case (Cons nt p)
  obtain n t where nt: "nt = (n, t)" by (cases nt)
  show ?case
    unfolding foldl_Cons Cons.IH nt
    by (auto simp: set_obj_keys_obj_set obj_get_None_iff obj_keys_Cons)
qed

lemma keys_allProcessedTokens_aux:
  "set (obj_keys (foldl (\<lambda>acc nv. if startsWith (fst nv) ''--''
                      then obj_set acc (fst nv) (mk_token (fst nv) (snd nv)) else acc) acc eff))
   = set (obj_keys acc) \<union> {n \<in> set (obj_keys eff). startsWith n ''--''}"
proof (induction eff arbitrary: acc)
  case Nil
  then show ?case by (simp add: obj_keys_Nil)
next
  case (Cons nv eff)
  obtain n v where nv: "nv = (n, v)" by (cases nv)
  show ?case
    unfolding foldl_Cons Cons.IH nv
    by (auto simp: set_obj_keys_obj_set obj_keys_Cons)
qed

lemma keys_allProcessedTokens:
  "set (obj_keys (allProcessedTokens eff)) = {n \<in> set (obj_keys eff). startsWith n ''--''}"
  unfolding allProcessedTokens_def keys_allProcessedTokens_aux
  by (simp add: obj_keys_Nil)

lemma entries_ok_orderedAllVariables:
  "entries_ok (orderedAllVariables (foldl categorize empty_grouped eff) eff)"
proof -
  let ?g = "foldl categorize empty_grouped eff"
  have ok: "tokens_ok (get_slot s ?g)" for s
    by (rule tokens_ok_get_slot_fold) (simp add: get_slot_empty tokens_ok_def del: get_slot.simps)
  have e0: "entries_ok []" by (simp add: entries_ok_def)
  show ?thesis
    unfolding orderedAllVariables_def Let_def
    using ok [of SInteractive] ok [of SBackground] ok [of SText] ok [of SIcon] ok [of SBorder]
      ok [of SElevation] ok [of SChart] ok [of SLegacy] ok [of SGInteractive] ok [of SGeneral]
    by (intro entries_ok_add_uncategorized entries_ok_foldl_add_flat entries_ok_foldl_add_tokens
          e0 tokens_ok_allProcessedTokens) simp_all
qed

lemma count_one: "distinct ks \<Longrightarrow> n \<in> set ks \<Longrightarrow> length (filter (\<lambda>k. k = n) ks) = 1"
  by (induction ks) (auto simp: filter_empty_conv)

lemma All_tokens_group_theme:
  "All_tokens (group_theme eff) = orderedAllVariables (foldl categorize empty_grouped eff) eff"
  by (simp add: group_theme_def Let_def)

lemma all_view_group_theme:
  assumes "n \<in> set (obj_keys eff)" and "startsWith n ''--''"
  shows "all_count (group_theme eff) n = 1"
    and "\<exists>t. obj_get (All_tokens (group_theme eff)) n = Some (Token t) \<and> tok_name t = n"
proof -
  let ?a = "All_tokens (group_theme eff)"
  have d: "distinct (obj_keys ?a)"
    unfolding All_tokens_group_theme by (rule distinct_orderedAllVariables)
  have m: "n \<in> set (obj_keys ?a)"
    unfolding All_tokens_group_theme orderedAllVariables_def Let_def
    using assms by (simp add: keys_add_uncategorized keys_allProcessedTokens)
  show "all_count (group_theme eff) n = 1"
    unfolding all_count_def using d m by (rule count_one)
  from m obtain e where e: "obj_get ?a n = Some e"
    by (cases "obj_get ?a n") (auto simp: obj_get_None_iff)
  then have mem: "(n, e) \<in> set ?a" by (rule obj_get_SomeD)
  have ok: "entries_ok ?a"
    unfolding All_tokens_group_theme by (rule entries_ok_orderedAllVariables)
  show "\<exists>t. obj_get ?a n = Some (Token t) \<and> tok_name t = n"
  proof (cases e)
    case (Token t)
    with ok mem have "tok_name t = n" by (auto simp: entries_ok_def)
    with e Token show ?thesis by simp
  next
    case (Field x)
    with ok mem have "n \<in> {''name'', ''raw'', ''type'', ''value''}"
      by (auto simp: entries_ok_def)
    with assms(2) show ?thesis by (auto simp: startsWith_def)
  qed
qed

lemma buildGroupedTokens_Some:
  "obj_get (buildGroupedTokens rawMap) theme = Some g \<Longrightarrow>
   g = group_theme (effective_map rawMap theme)"
  unfolding buildGroupedTokens_def availableThemes_def
  by (auto simp: obj_get_def split: if_splits)

section \<open>Claims about the token classifier\<close>

lemma route_SChart_iff:
  "map_option fst (route n) = Some SChart \<longleftrightarrow>
     startsWith n ''--prism-color-'' \<and> startsWith n ''--prism-color-chart-'' \<and>
     \<not> startsWith n ''--prism-color-chart-categorical-'' \<and>
     \<not> startsWith n ''--prism-color-chart-sequential-''"
  by (simp add: route_def)

lemma chart_prefix:
  "startsWith n ''--prism-color-chart-'' \<Longrightarrow> startsWith n ''--'' \<and> startsWith n ''--prism-color-''"
  using startsWith_append [of n "''--''" "''prism-color-chart-''"]
    startsWith_append [of n "''--prism-color-''" "''chart-''"]
  by simp

text \<open>
  C5.  In the classifier output of any theme, a name with the categorical or the sequential
  chart-colour prefix is never a key of Colors/Chart; the keys of Colors/Chart are exactly
  the properties of the theme's effective map with the chart-colour prefix and neither of
  those two prefixes.
\<close>

theorem chart_color_exclusion:
  assumes "obj_get (buildGroupedTokens rawMap) theme = Some g"
  shows "(startsWith n ''--prism-color-chart-categorical-'' \<or>
          startsWith n ''--prism-color-chart-sequential-''
            \<longrightarrow> obj_get (Chart (Colors g)) n = None) \<and>
         (obj_get (Chart (Colors g)) n \<noteq> None \<longleftrightarrow>
            n \<in> set (obj_keys (effective_map rawMap theme)) \<and>
            startsWith n ''--prism-color-chart-'' \<and>
            \<not> startsWith n ''--prism-color-chart-categorical-'' \<and>
            \<not> startsWith n ''--prism-color-chart-sequential-'')"
proof -
  have g: "g = group_theme (effective_map rawMap theme)"
    using assms by (rule buildGroupedTokens_Some)
  have "obj_get (Chart (Colors g)) n \<noteq> None \<longleftrightarrow>
          n \<in> set (obj_keys (get_slot SChart (group_theme (effective_map rawMap theme))))"
    by (simp add: g obj_get_None_iff)
  also have "\<dots> \<longleftrightarrow> n \<in> set (obj_keys (effective_map rawMap theme)) \<and>
            startsWith n ''--prism-color-chart-'' \<and>
            \<not> startsWith n ''--prism-color-chart-categorical-'' \<and>
            \<not> startsWith n ''--prism-color-chart-sequential-''"
    unfolding keys_get_slot_group_theme route_SChart_iff
    using chart_prefix [of n] by auto
  finally show ?thesis by auto
qed


lemma example_theme_light:
  "obj_get (buildGroupedTokens
       [(''root'', [(''--prism-color-chart-accent-primary-figure-default'', ''var(--x)''),
                    (''--prism-color-chart-categorical-01'', ''#1f77b4'')])]) ''light'' =
     Some (group_theme (effective_map
       [(''root'', [(''--prism-color-chart-accent-primary-figure-default'', ''var(--x)''),
                    (''--prism-color-chart-categorical-01'', ''#1f77b4'')])] ''light''))"
  by (simp add: buildGroupedTokens_def availableThemes_def obj_get_def)

lemma example_keys_light:
  "obj_keys (effective_map
       [(''root'', [(''--prism-color-chart-accent-primary-figure-default'', ''var(--x)''),
                    (''--prism-color-chart-categorical-01'', ''#1f77b4'')])] ''light'') =
   [''--prism-color-chart-accent-primary-figure-default'', ''--prism-color-chart-categorical-01'']"
  by code_simp

theorem chart_color_exclusion_witness:
  "obj_get (Chart (Colors (group_theme (effective_map
       [(''root'', [(''--prism-color-chart-accent-primary-figure-default'', ''var(--x)''),
                    (''--prism-color-chart-categorical-01'', ''#1f77b4'')])] ''light'')))) ''--prism-color-chart-categorical-01'' = None \<and>
   ''--prism-color-chart-accent-primary-figure-default'' \<in> set (obj_keys (Chart (Colors (group_theme (effective_map
       [(''root'', [(''--prism-color-chart-accent-primary-figure-default'', ''var(--x)''),
                    (''--prism-color-chart-categorical-01'', ''#1f77b4'')])] ''light'')))))"
proof -
  have c: "startsWith ''--prism-color-chart-categorical-01'' ''--prism-color-chart-categorical-''"
    by (simp add: startsWith_def)
  have a: "startsWith ''--prism-color-chart-accent-primary-figure-default'' ''--prism-color-chart-'' \<and>
           \<not> startsWith ''--prism-color-chart-accent-primary-figure-default'' ''--prism-color-chart-categorical-'' \<and>
           \<not> startsWith ''--prism-color-chart-accent-primary-figure-default'' ''--prism-color-chart-sequential-''"
    by (simp add: startsWith_def)
  show ?thesis
    using chart_color_exclusion [OF example_theme_light, of "''--prism-color-chart-categorical-01''"]
      chart_color_exclusion [OF example_theme_light, of "''--prism-color-chart-accent-primary-figure-default''"]
      c a
    by (simp add: example_keys_light obj_get_None_iff)
qed

text \<open>
  C1 as stated fails: a foundational chart colour is in the effective map and in no
  category at all.
\<close>

theorem classifier_coverage_counterexample:
  "''--prism-color-chart-categorical-01'' \<in> set (obj_keys (effective_map
       [(''root'', [(''--prism-color-chart-accent-primary-figure-default'', ''var(--x)''),
                    (''--prism-color-chart-categorical-01'', ''#1f77b4'')])] ''light'')) \<and>
   slot_count (the (obj_get (buildGroupedTokens
       [(''root'', [(''--prism-color-chart-accent-primary-figure-default'', ''var(--x)''),
                    (''--prism-color-chart-categorical-01'', ''#1f77b4'')])]) ''light'')) ''--prism-color-chart-categorical-01'' = 0"
  by code_simp

text \<open>
  C1, amended.  In the classifier output of any theme, every property of the effective map
  whose name starts with \<^verbatim>\<open>--\<close> is a key of at most one (sub)category: of exactly one,
  unless its name has the colour prefix \<^verbatim>\<open>--prism-color-\<close> and either is a categorical or
  sequential chart colour or has none of the second-level prefixes the colour branch files
  (then of none).  Every such property is a key of the All view exactly once, holding a
  token of that name.
\<close>

theorem classifier_coverage:
  assumes "obj_get (buildGroupedTokens rawMap) theme = Some g"
      and "n \<in> set (obj_keys (effective_map rawMap theme))"
      and "startsWith n ''--''"
  shows "slot_count g n = (if excluded_color n then 0 else 1) \<and>
         all_count g n = 1 \<and>
         (\<exists>t. obj_get (All_tokens g) n = Some (Token t) \<and> tok_name t = n)"
proof -
  have g: "g = group_theme (effective_map rawMap theme)"
    using assms(1) by (rule buildGroupedTokens_Some)
  show ?thesis
    unfolding g
    using slot_count_group_theme [OF assms(2,3)] all_view_group_theme [OF assms(2,3)]
    by simp
qed

theorem classifier_coverage_witness:
  "slot_count (group_theme (effective_map
       [(''root'', [(''--prism-color-chart-accent-primary-figure-default'', ''var(--x)''),
                    (''--prism-color-chart-categorical-01'', ''#1f77b4'')])] ''light'')) ''--prism-color-chart-accent-primary-figure-default'' = 1 \<and>
   all_count (group_theme (effective_map
       [(''root'', [(''--prism-color-chart-accent-primary-figure-default'', ''var(--x)''),
                    (''--prism-color-chart-categorical-01'', ''#1f77b4'')])] ''light'')) ''--prism-color-chart-accent-primary-figure-default'' = 1 \<and>
   slot_count (group_theme (effective_map
       [(''root'', [(''--prism-color-chart-accent-primary-figure-default'', ''var(--x)''),
                    (''--prism-color-chart-categorical-01'', ''#1f77b4'')])] ''light'')) ''--prism-color-chart-categorical-01'' = 0 \<and>
   all_count (group_theme (effective_map
       [(''root'', [(''--prism-color-chart-accent-primary-figure-default'', ''var(--x)''),
                    (''--prism-color-chart-categorical-01'', ''#1f77b4'')])] ''light'')) ''--prism-color-chart-categorical-01'' = 1"
proof -
  have e: "\<not> excluded_color ''--prism-color-chart-accent-primary-figure-default''" "excluded_color ''--prism-color-chart-categorical-01''"
    by (simp_all add: excluded_color_def startsWith_def)
  have s: "startsWith ''--prism-color-chart-accent-primary-figure-default'' ''--''" "startsWith ''--prism-color-chart-categorical-01'' ''--''"
    by (simp_all add: startsWith_def)
  have k: "''--prism-color-chart-accent-primary-figure-default'' \<in> set (obj_keys (effective_map
       [(''root'', [(''--prism-color-chart-accent-primary-figure-default'', ''var(--x)''),
                    (''--prism-color-chart-categorical-01'', ''#1f77b4'')])] ''light''))"
    "''--prism-color-chart-categorical-01'' \<in> set (obj_keys (effective_map
       [(''root'', [(''--prism-color-chart-accent-primary-figure-default'', ''var(--x)''),
                    (''--prism-color-chart-categorical-01'', ''#1f77b4'')])] ''light''))"
    by (simp_all add: example_keys_light)
  show ?thesis
    using classifier_coverage [OF example_theme_light k(1) s(1)]
      classifier_coverage [OF example_theme_light k(2) s(2)] e
    by simp
qed

text \<open>
  C9.  In the classifier output of any theme, every token stored in a category or
  subcategory, and every token stored in the All view, has \<^verbatim>\<open>raw\<close> equal to
  \<^verbatim>\<open>value\<close>.
\<close>

theorem raw_equals_value:
  assumes "obj_get (buildGroupedTokens rawMap) theme = Some g"
  shows "(\<forall>ob \<in> set (leaf_slots g). \<forall>(k, t) \<in> set ob. tok_raw t = tok_value t) \<and>
         (\<forall>(k, e) \<in> set (All_tokens g). \<forall>t. e = Token t \<longrightarrow> tok_raw t = tok_value t)"
proof -
  have g: "g = group_theme (effective_map rawMap theme)"
    using assms by (rule buildGroupedTokens_Some)
  have "\<forall>(k, t) \<in> set (get_slot s g). tok_raw t = tok_value t" for s
    using tokens_ok_group_theme [of s "effective_map rawMap theme"]
    unfolding g tokens_ok_def by auto
  then have 1: "\<forall>ob \<in> set (leaf_slots g). \<forall>(k, t) \<in> set ob. tok_raw t = tok_value t"
    unfolding leaf_slots_def by auto
  have "entries_ok (All_tokens g)"
    unfolding g All_tokens_group_theme by (rule entries_ok_orderedAllVariables)
  then have 2: "\<forall>(k, e) \<in> set (All_tokens g). \<forall>t. e = Token t \<longrightarrow> tok_raw t = tok_value t"
    unfolding entries_ok_def by auto
  from 1 2 show ?thesis ..
qed

lemma example_theme_dark:
  "obj_get (buildGroupedTokens [(''root'', [(''--prism-spacing-sm'', ''4px'')]), (''dark'', [(''--prism-spacing-sm'', ''6px'')])]) ''dark'' =
     Some (group_theme (effective_map [(''root'', [(''--prism-spacing-sm'', ''4px'')]), (''dark'', [(''--prism-spacing-sm'', ''6px'')])] ''dark''))"
  by (simp add: buildGroupedTokens_def availableThemes_def obj_get_def)

lemma example_dark_tokens:
  "Spacing (group_theme (effective_map [(''root'', [(''--prism-spacing-sm'', ''4px'')]), (''dark'', [(''--prism-spacing-sm'', ''6px'')])] ''dark'')) \<in> set (leaf_slots (group_theme (effective_map [(''root'', [(''--prism-spacing-sm'', ''4px'')]), (''dark'', [(''--prism-spacing-sm'', ''6px'')])] ''dark'')))"
  "obj_get (Spacing (group_theme (effective_map [(''root'', [(''--prism-spacing-sm'', ''4px'')]), (''dark'', [(''--prism-spacing-sm'', ''6px'')])] ''dark''))) ''--prism-spacing-sm'' \<noteq> None"
  "obj_get (All_tokens (group_theme (effective_map [(''root'', [(''--prism-spacing-sm'', ''4px'')]), (''dark'', [(''--prism-spacing-sm'', ''6px'')])] ''dark''))) ''--prism-spacing-sm'' \<noteq> None"
  by (simp add: leaf_slots_def all_slots_def) code_simp+

theorem raw_equals_value_witness:
  "tok_raw (the (obj_get (Spacing (group_theme (effective_map [(''root'', [(''--prism-spacing-sm'', ''4px'')]), (''dark'', [(''--prism-spacing-sm'', ''6px'')])] ''dark''))) ''--prism-spacing-sm'')) =
   tok_value (the (obj_get (Spacing (group_theme (effective_map [(''root'', [(''--prism-spacing-sm'', ''4px'')]), (''dark'', [(''--prism-spacing-sm'', ''6px'')])] ''dark''))) ''--prism-spacing-sm'')) \<and>
   tok_value (the (obj_get (Spacing (group_theme (effective_map [(''root'', [(''--prism-spacing-sm'', ''4px'')]), (''dark'', [(''--prism-spacing-sm'', ''6px'')])] ''dark''))) ''--prism-spacing-sm'')) = ''6px''"
proof -
  let ?g = "(group_theme (effective_map [(''root'', [(''--prism-spacing-sm'', ''4px'')]), (''dark'', [(''--prism-spacing-sm'', ''6px'')])] ''dark''))"
  from example_dark_tokens(2) obtain t where
    t: "obj_get (Spacing ?g) ''--prism-spacing-sm'' = Some t" by auto
  then have m: "(''--prism-spacing-sm'', t) \<in> set (Spacing ?g)" by (rule obj_get_SomeD)
  have "tok_raw t = tok_value t"
    using raw_equals_value [OF example_theme_dark] example_dark_tokens(1) m by blast
  moreover have "tok_value (the (obj_get (Spacing ?g) ''--prism-spacing-sm'')) = ''6px''"
    by code_simp
  ultimately show ?thesis using t by simp
qed


section \<open>Facts about the palette builders\<close>

lemma set_insert_by: "set (insert_by le x ys) = insert x (set ys)"
  by (induction ys) auto

lemma set_sort_by: "set (sort_by le xs) = set xs"
  unfolding sort_by_def by (induction xs) (simp_all add: set_insert_by)

lemma rows_allD: "rows_all Q rows \<Longrightarrow> (f, sws) \<in> set rows \<Longrightarrow> sw \<in> set sws \<Longrightarrow> Q sw"
  unfolding rows_all_def by fastforce

lemma rows_all_obj_set:
  assumes "rows_all Q rows" and "\<And>x. x \<in> set sws \<Longrightarrow> Q x"
  shows "rows_all Q (obj_set rows f sws)"
  unfolding rows_all_def
proof (intro ballI, clarify)
  fix g ss x
  assume "(g, ss) \<in> set (obj_set rows f sws)" and x: "x \<in> set ss"
  then have "(g, ss) = (f, sws) \<or> (g, ss) \<in> set rows"
    using set_obj_set_subset [of rows f sws] by blast
  then show "Q x"
  proof
    assume "(g, ss) = (f, sws)"
    with x assms(2) show ?thesis by simp
  next
    assume "(g, ss) \<in> set rows"
    then show ?thesis using x by (intro rows_allD [OF assms(1)])
  qed
qed

lemma rows_all_push_row:
  assumes "rows_all Q rows" and "Q sw"
  shows "rows_all Q (push_row rows f sw)"
proof (cases "obj_get rows f")
  case None
  have "rows_all Q (obj_set rows f [sw])"
    using assms by (intro rows_all_obj_set) auto
  then show ?thesis using None by (simp add: push_row_def)
next
  case (Some sws)
  then have m: "(f, sws) \<in> set rows" by (rule obj_get_SomeD)
  have "rows_all Q (obj_set rows f (sws @ [sw]))"
    using assms rows_allD [OF assms(1) m] by (intro rows_all_obj_set) auto
  then show ?thesis using Some by (simp add: push_row_def)
qed

lemma rows_all_foldl:
  assumes "\<And>rows e. rows_all Q rows \<Longrightarrow> e \<in> set es \<Longrightarrow> rows_all Q (f rows e)"
  shows "rows_all Q rows \<Longrightarrow> rows_all Q (foldl f rows es)"
  using assms by (induction es arbitrary: rows) simp_all

lemma rows_all_Nil: "rows_all Q []"
  by (simp add: rows_all_def)

lemma orderRows_row:
  assumes "r \<in> set (orderRows lc rowsMap pref keep)"
  shows "\<exists>sws. (row_id r, sws) \<in> set rowsMap \<and>
           map sw_step (row_swatches r) =
             map sw_step (sort_key (\<lambda>s. parseNumericStep (sw_step s)) sws) \<and>
           map sw_cssVar (row_swatches r) =
             map sw_cssVar (sort_key (\<lambda>s. parseNumericStep (sw_step s)) sws)"
proof -
  let ?mk = "\<lambda>(family, swatches).
                   \<lparr>row_id = family, row_label = formatLabel family,
                    row_swatches = sort_key (\<lambda>s. parseNumericStep (sw_step s)) swatches\<rparr>"
  let ?pad = "\<lambda>r. r\<lparr>row_swatches :=
                            map (\<lambda>s. s\<lparr>sw_displayStep := padStart2 (sw_step s)\<rparr>)
                              (row_swatches r)\<rparr>"
  from assms have "r \<in> set (sort_by (row_le lc pref) (map ?mk rowsMap)) \<or>
                   r \<in> ?pad ` set (sort_by (row_le lc pref) (map ?mk rowsMap))"
    by (auto simp: orderRows_def Let_def split: if_splits)
  then obtain f sws where m: "(f, sws) \<in> set rowsMap" and
    r: "r = ?mk (f, sws) \<or> r = ?pad (?mk (f, sws))"
    unfolding set_sort_by by auto
  from r have "row_id r = f \<and>
           map sw_step (row_swatches r) =
             map sw_step (sort_key (\<lambda>s. parseNumericStep (sw_step s)) sws) \<and>
           map sw_cssVar (row_swatches r) =
             map sw_cssVar (sort_key (\<lambda>s. parseNumericStep (sw_step s)) sws)"
    by (auto simp: o_def)
  with m show ?thesis by auto
qed

lemma orderRows_sorted:
  assumes "r \<in> set (orderRows lc rowsMap pref keep)"
  shows "sorted (map (\<lambda>s. parseNumericStep (sw_step s)) (row_swatches r))"
proof -
  from orderRows_row [OF assms] obtain sws :: "swatch list" where
    "map sw_step (row_swatches r) =
       map sw_step (sort_key (\<lambda>s. parseNumericStep (sw_step s)) sws)" by auto
  then have "map parseNumericStep (map sw_step (row_swatches r)) =
       map parseNumericStep (map sw_step (sort_key (\<lambda>s. parseNumericStep (sw_step s)) sws))"
    by simp
  then have "map (\<lambda>s. parseNumericStep (sw_step s)) (row_swatches r) =
       map (\<lambda>s. parseNumericStep (sw_step s)) (sort_key (\<lambda>s. parseNumericStep (sw_step s)) sws)"
    by (simp add: o_def)
  then show ?thesis by (simp only: sorted_sort_key)
qed

lemma orderRows_all:
  assumes "rows_all Q rowsMap" and "r \<in> set (orderRows lc rowsMap pref keep)"
    and "s \<in> set (row_swatches r)"
  shows "\<exists>s' . Q s' \<and> sw_step s' = sw_step s \<and> sw_cssVar s' = sw_cssVar s"
proof -
  let ?mk = "\<lambda>(family, swatches).
                   \<lparr>row_id = family, row_label = formatLabel family,
                    row_swatches = sort_key (\<lambda>s. parseNumericStep (sw_step s)) swatches\<rparr>"
  let ?pad = "\<lambda>r. r\<lparr>row_swatches :=
                            map (\<lambda>s. s\<lparr>sw_displayStep := padStart2 (sw_step s)\<rparr>)
                              (row_swatches r)\<rparr>"
  from assms(2) have "r \<in> set (sort_by (row_le lc pref) (map ?mk rowsMap)) \<or>
                   r \<in> ?pad ` set (sort_by (row_le lc pref) (map ?mk rowsMap))"
    by (auto simp: orderRows_def Let_def split: if_splits)
  then obtain f sws where m: "(f, sws) \<in> set rowsMap" and
    r: "r = ?mk (f, sws) \<or> r = ?pad (?mk (f, sws))"
    unfolding set_sort_by by auto
  from r assms(3) obtain s' where "s' \<in> set sws" "sw_step s' = sw_step s" "sw_cssVar s' = sw_cssVar s"
    by auto
  moreover from this m assms(1) have "Q s'" by (intro rows_allD)
  ultimately show ?thesis by blast
qed

lemma digit_not_space: "is_digit c \<Longrightarrow> \<not> is_space c"
  by (auto simp: is_digit_def is_space_def Let_def)

lemma digit_not_sign: "is_digit c \<Longrightarrow> c \<noteq> CHR ''-'' \<and> c \<noteq> CHR ''+''"
  by (auto simp: is_digit_def Let_def)

lemma digits_fold_bounds:
  "list_all is_digit ds \<Longrightarrow> 0 \<le> acc \<Longrightarrow>
   0 \<le> foldl (\<lambda>acc c. acc * 10 + (int (of_char c) - 48)) acc ds \<and>
   foldl (\<lambda>acc c. acc * 10 + (int (of_char c) - 48)) acc ds < (acc + 1) * 10 ^ length ds"
proof (induction ds arbitrary: acc)
  case Nil
  then show ?case by simp
next
  case (Cons d ds)
  from Cons.prems have dd: "is_digit d" and ds: "list_all is_digit ds"
    by simp_all
  from dd have d: "48 \<le> int (of_char d)" "int (of_char d) \<le> 57"
    by (auto simp: is_digit_def Let_def)
  let ?a = "acc * 10 + (int (of_char d) - 48)"
  have a0: "0 \<le> ?a" using d Cons.prems(2) by simp
  have a1: "?a + 1 \<le> (acc + 1) * 10" using d by simp
  from Cons.IH [OF ds a0] have
    ge: "0 \<le> foldl (\<lambda>acc c. acc * 10 + (int (of_char c) - 48)) ?a ds" and
    lt: "foldl (\<lambda>acc c. acc * 10 + (int (of_char c) - 48)) ?a ds < (?a + 1) * 10 ^ length ds"
    by simp_all
  have le: "(?a + 1) * 10 ^ length ds \<le> ((acc + 1) * 10) * 10 ^ length ds"
    using a1 by (intro mult_right_mono) simp_all
  have "foldl (\<lambda>acc c. acc * 10 + (int (of_char c) - 48)) ?a ds
          < ((acc + 1) * 10) * 10 ^ length ds"
    using lt le by (rule less_le_trans)
  with ge show ?case by (simp add: algebra_simps)
qed

lemma digits_value_bounds:
  "list_all is_digit ds \<Longrightarrow> 0 \<le> digits_value ds \<and> digits_value ds < 10 ^ length ds"
  using digits_fold_bounds [of ds 0] by (simp add: digits_value_def)

lemma parseInt10_digits:
  assumes "list_all is_digit ds" and "ds \<noteq> []"
  shows "parseInt10 ds = Some (digits_value ds)"
proof -
  from assms obtain d ds' where ds: "ds = d # ds'" and d: "is_digit d"
    by (cases ds) auto
  have 1: "dropWhile is_space ds = ds"
    using d digit_not_space by (simp add: ds)
  have 2: "takeWhile is_digit ds = ds"
    using assms(1) by (simp add: list_all_iff)
  show ?thesis
    unfolding parseInt10_def 1 Let_def
    using digit_not_sign [OF d] 2 assms(2) by (simp add: ds)
qed

lemma parseNumericStep_digits:
  assumes "list_all is_digit st" and "st \<noteq> []" and "length st \<le> 3"
  shows "0 \<le> parseNumericStep st \<and> parseNumericStep st < 1000"
proof -
  let ?c = "dropWhile (\<lambda>c. c = CHR ''0'') st"
  have c: "list_all is_digit ?c"
    using assms(1) unfolding list_all_iff by (meson set_dropWhileD)
  have l: "length ?c \<le> 3" using assms(3) length_dropWhile_le [of _ st] by (meson le_trans)
  show ?thesis
  proof (cases "?c = []")
    case True
    then show ?thesis using assms(2) by (simp add: parseNumericStep_def)
  next
    case False
    have "digits_value ?c < 10 ^ length ?c" "0 \<le> digits_value ?c"
      using digits_value_bounds [OF c] by simp_all
    moreover have "(10::int) ^ length ?c \<le> 10 ^ 3"
      using l by (intro power_increasing) simp_all
    ultimately have "0 \<le> digits_value ?c \<and> digits_value ?c < 1000" by simp
    then show ?thesis
      using False assms(2) parseInt10_digits [OF c False]
      by (simp add: parseNumericStep_def Let_def)
  qed
qed

lemma parseNumericStep_leading_zeros:
  "d \<noteq> [] \<Longrightarrow> parseNumericStep (replicate k (CHR ''0'') @ d) = parseNumericStep d"
proof (induction k)
  case 0
  then show ?case by simp
next
  case (Suc k)
  have "dropWhile (\<lambda>c. c = CHR ''0'') (replicate (Suc k) (CHR ''0'') @ d) =
        dropWhile (\<lambda>c. c = CHR ''0'') (replicate k (CHR ''0'') @ d)"
    by simp
  moreover have "dropWhile (\<lambda>c. c = CHR ''0'') (replicate k (CHR ''0'') @ d) =
        dropWhile (\<lambda>c. c = CHR ''0'') d"
    by (induction k) simp_all
  ultimately show ?case using Suc.prems by (simp add: parseNumericStep_def)
qed

lemma parseNumericStep_unparsable:
  "st = [] \<or> (dropWhile (\<lambda>c. c = CHR ''0'') st \<noteq> [] \<and>
              parseInt10 (dropWhile (\<lambda>c. c = CHR ''0'') st) = None) \<Longrightarrow>
   parseNumericStep st = MAX_SAFE_INTEGER"
  by (auto simp: parseNumericStep_def Let_def)

lemma match_family_step_digits:
  "match_family_step pre lo hi name = Some (family, step) \<Longrightarrow>
   list_all is_digit step \<and> lo \<le> length step \<and> length step \<le> hi"
  by (auto simp: match_family_step_def Let_def split: if_splits)

lemma match_categorical_digits:
  "match_categorical name = Some step \<Longrightarrow> list_all is_digit step \<and> length step = 2"
  by (auto simp: match_categorical_def Let_def split: if_splits)

lemma sw_step_buildSwatch: "sw_step (buildSwatch step v name d) = step"
  by (simp add: buildSwatch_def Let_def)

lemma sw_cssVar_buildSwatch:
  assumes "startsWith name ''--prism-color-general-''"
  shows "sw_cssVar (buildSwatch step v name d) = name"
proof -
  have "hd name = CHR ''-''" using startsWith_hd [OF assms] by simp
  moreover have "hd name = CHR ''v''" if "startsWith name ''var(''"
    using startsWith_hd [OF that] by simp
  ultimately have "\<not> startsWith name ''var(''" by auto
  then show ?thesis by (simp add: buildSwatch_def Let_def)
qed

lemma includes_str_append: "includes_str (a @ p @ b) p"
proof (induction a)
  case Nil
  have "startsWith (p @ b) p" by (simp add: startsWith_def)
  then show ?case by (cases "p @ b") (auto simp: startsWith_def)
next
  case (Cons c a)
  then show ?case by simp
qed

lemma startsWith_includes: "startsWith n (a @ p) \<Longrightarrow> includes_str n p"
proof -
  assume "startsWith n (a @ p)"
  then have "n = (a @ p) @ drop (length (a @ p)) n"
    unfolding startsWith_def by (metis append_take_drop_id)
  then have "n = a @ p @ drop (length (a @ p)) n" by simp
  then show ?thesis using includes_str_append [of a p "drop (length (a @ p)) n"] by simp
qed

lemma alpha_prefix_includes:
  assumes "startsWith n ''--prism-color-general-alpha-''"
  shows "includes_str n ''-alpha-''" and "startsWith n ''--prism-color-general-''"
  using startsWith_includes [of n "''--prism-color-general''" "''-alpha-''"]
    startsWith_append [of n "''--prism-color-general-''" "''alpha-''"] assms
  by simp_all

lemma general_rows:
  "rows_all (\<lambda>sw. sw_cssVar sw \<in> set (obj_keys vs) \<and>
                  startsWith (sw_cssVar sw) ''--prism-color-general-'' \<and>
                  \<not> includes_str (sw_cssVar sw) ''-alpha-'' \<and>
                  list_all is_digit (sw_step sw) \<and> 2 \<le> length (sw_step sw) \<and>
                  length (sw_step sw) \<le> 3)
     (foldl general_step [] vs)"
proof (rule rows_all_foldl [OF _ rows_all_Nil])
  fix rows :: "swatch list obj" and e
  let ?Q = "\<lambda>sw. sw_cssVar sw \<in> set (obj_keys vs) \<and>
                  startsWith (sw_cssVar sw) ''--prism-color-general-'' \<and>
                  \<not> includes_str (sw_cssVar sw) ''-alpha-'' \<and>
                  list_all is_digit (sw_step sw) \<and> 2 \<le> length (sw_step sw) \<and>
                  length (sw_step sw) \<le> 3"
  assume r: "rows_all ?Q rows" and e: "e \<in> set vs"
  obtain name v where nv: "e = (name, v)" by (cases e)
  from e nv have k: "name \<in> set (obj_keys vs)" by (force simp: obj_keys_def)
  show "rows_all ?Q (general_step rows e)"
  proof (cases "match_family_step ''--prism-color-general-'' 2 3 name")
    case None
    then show ?thesis using r by (simp add: general_step_def nv)
  next
    case (Some fs)
    obtain family step where fs: "fs = (family, step)" by (cases fs)
    note d = match_family_step_digits [OF Some [unfolded fs]]
    show ?thesis
    proof (cases "startsWith name ''--prism-color-general-'' \<and> \<not> includes_str name ''-alpha-''")
      case False
      then show ?thesis using r by (auto simp: general_step_def nv)
    next
      case True
      then have "?Q (buildSwatch step v name None)"
        using d k by (simp add: sw_cssVar_buildSwatch sw_step_buildSwatch)
      with r have "rows_all ?Q (push_row rows family (buildSwatch step v name None))"
        by (rule rows_all_push_row)
      then show ?thesis using True Some fs by (simp add: general_step_def nv)
    qed
  qed
qed

lemma alpha_rows:
  "rows_all (\<lambda>sw. sw_cssVar sw \<in> set (obj_keys vs) \<and>
                  startsWith (sw_cssVar sw) ''--prism-color-general-alpha-'' \<and>
                  list_all is_digit (sw_step sw) \<and> 2 \<le> length (sw_step sw) \<and>
                  length (sw_step sw) \<le> 3)
     (foldl alpha_step [] vs)"
proof (rule rows_all_foldl [OF _ rows_all_Nil])
  fix rows :: "swatch list obj" and e
  let ?Q = "\<lambda>sw. sw_cssVar sw \<in> set (obj_keys vs) \<and>
                  startsWith (sw_cssVar sw) ''--prism-color-general-alpha-'' \<and>
                  list_all is_digit (sw_step sw) \<and> 2 \<le> length (sw_step sw) \<and>
                  length (sw_step sw) \<le> 3"
  assume r: "rows_all ?Q rows" and e: "e \<in> set vs"
  obtain name v where nv: "e = (name, v)" by (cases e)
  from e nv have k: "name \<in> set (obj_keys vs)" by (force simp: obj_keys_def)
  show "rows_all ?Q (alpha_step rows e)"
  proof (cases "match_family_step ''--prism-color-general-alpha-'' 2 3 name")
    case None
    then show ?thesis using r by (simp add: alpha_step_def nv)
  next
    case (Some fs)
    obtain family step where fs: "fs = (family, step)" by (cases fs)
    note d = match_family_step_digits [OF Some [unfolded fs]]
    show ?thesis
    proof (cases "startsWith name ''--prism-color-general-alpha-''")
      case False
      then show ?thesis using r by (auto simp: alpha_step_def nv)
    next
      case True
      then have "?Q (buildSwatch step v name None)"
        using d k alpha_prefix_includes(2) [OF True]
        by (simp add: sw_cssVar_buildSwatch sw_step_buildSwatch)
      with r have "rows_all ?Q (push_row rows family (buildSwatch step v name None))"
        by (rule rows_all_push_row)
      then show ?thesis using True Some fs by (simp add: alpha_step_def nv)
    qed
  qed
qed

lemma chart_rows:
  "rows_all (\<lambda>sw. list_all is_digit (sw_step sw) \<and> length (sw_step sw) = 2)
     (foldl chart_step [] vs)"
proof (rule rows_all_foldl [OF _ rows_all_Nil])
  fix rows :: "swatch list obj" and e
  let ?Q = "\<lambda>sw. list_all is_digit (sw_step sw) \<and> length (sw_step sw) = 2"
  assume r: "rows_all ?Q rows" and e: "e \<in> set vs"
  obtain name v where nv: "e = (name, v)" by (cases e)
  show "rows_all ?Q (chart_step rows e)"
  proof (cases "match_family_step ''--prism-color-chart-sequential-'' 2 2 name")
    case (Some fs)
    obtain family step where fs: "fs = (family, step)" by (cases fs)
    from match_family_step_digits [OF Some [unfolded fs]]
    have "?Q (buildSwatch step v name (Some step))"
      by (simp add: sw_step_buildSwatch)
    with r have "rows_all ?Q (push_row rows family (buildSwatch step v name (Some step)))"
      by (rule rows_all_push_row)
    then show ?thesis using Some fs by (simp add: chart_step_def nv)
  next
    case None
    show ?thesis
    proof (cases "match_categorical name")
      case N2: None
      then show ?thesis using None r by (simp add: chart_step_def nv)
    next
      case (Some step)
      from match_categorical_digits [OF Some]
      have "?Q (buildSwatch step v name (Some step))"
        by (simp add: sw_step_buildSwatch)
      with r have "rows_all ?Q (push_row rows ''categorical'' (buildSwatch step v name (Some step)))"
        by (rule rows_all_push_row)
      then show ?thesis using None Some by (simp add: chart_step_def nv)
    qed
  qed
qed

lemma builder_rows_digits:
  assumes "r \<in> set (buildGeneralPalettes lc vs) \<union> set (buildAlphaPalettes lc vs) \<union>
               set (buildChartPalettes lc vs)"
    and "s \<in> set (row_swatches r)"
  shows "list_all is_digit (sw_step s) \<and> 2 \<le> length (sw_step s) \<and> length (sw_step s) \<le> 3"
proof -
  from assms(1) consider
    (g) "r \<in> set (orderRows lc (foldl general_step [] vs) GENERAL_ORDER False)" |
    (a) "r \<in> set (orderRows lc (foldl alpha_step [] vs) ALPHA_ORDER False)" |
    (c) "r \<in> set (orderRows lc (foldl chart_step [] vs) CHART_ORDER True)"
    by (auto simp: buildGeneralPalettes_def buildAlphaPalettes_def buildChartPalettes_def)
  then show ?thesis
  proof cases
    case g
    from orderRows_all [OF general_rows g assms(2)] show ?thesis by auto
  next
    case a
    from orderRows_all [OF alpha_rows a assms(2)] show ?thesis by auto
  next
    case c
    from orderRows_all [OF chart_rows c assms(2)] show ?thesis by auto
  qed
qed

text \<open>The numeric step of a digit string is the number it denotes.\<close>

lemma numeric_value_Nil: "numeric_value [] = 0"
  by (simp add: numeric_value_def)

lemma numeric_value_snoc:
  "numeric_value (ds @ [d]) = 10 * numeric_value ds + (of_char d - 48)"
proof -
  have m: "map (\<lambda>i. (of_char ((ds @ [d]) ! i) - (48::nat)) * 10 ^ (length ds - i)) [0..<length ds]
      = map (\<lambda>i. 10 * ((of_char (ds ! i) - 48) * 10 ^ (length ds - Suc i))) [0..<length ds]"
  proof (rule map_cong [OF refl])
    fix i assume "i \<in> set [0..<length ds]"
    then have i: "i < length ds" by simp
    then have "length ds - i = Suc (length ds - Suc i)" by simp
    with i show "(of_char ((ds @ [d]) ! i) - (48::nat)) * 10 ^ (length ds - i)
        = 10 * ((of_char (ds ! i) - 48) * 10 ^ (length ds - Suc i))"
      by (simp add: nth_append)
  qed
  show ?thesis
    by (simp add: numeric_value_def m sum_list_const_mult)
qed

lemma digits_value_snoc:
  "digits_value (ds @ [d]) = digits_value ds * 10 + (int (of_char d) - 48)"
  by (simp add: digits_value_def)

lemma digits_value_numeric:
  "list_all is_digit ds \<Longrightarrow> digits_value ds = int (numeric_value ds)"
proof (induction ds rule: rev_induct)
  case Nil
  show ?case by (simp add: digits_value_def numeric_value_Nil)
next
  case (snoc d ds)
  then have "is_digit d" "list_all is_digit ds" by simp_all
  moreover from \<open>is_digit d\<close> have "48 \<le> (of_char d :: nat)"
    by (auto simp: is_digit_def Let_def)
  ultimately show ?case using snoc.IH
    by (simp add: digits_value_snoc numeric_value_snoc)
qed

lemma digits_value_dropWhile_zeros:
  "digits_value (dropWhile (\<lambda>c. c = CHR ''0'') s) = digits_value s"
  by (induction s) (simp_all add: digits_value_def)

lemma numeric_value_leading_zeros:
  assumes "list_all is_digit d"
  shows "numeric_value (replicate k (CHR ''0'') @ d) = numeric_value d"
proof -
  have z: "list_all is_digit (replicate k (CHR ''0'') @ d)"
    using assms by (auto simp: list_all_iff is_digit_def Let_def)
  have "digits_value (replicate k (CHR ''0'') @ d) = digits_value d"
    by (induction k) (simp_all add: digits_value_def)
  with digits_value_numeric [OF z] digits_value_numeric [OF assms]
  show ?thesis by simp
qed

lemma numeric_value_bound:
  assumes "list_all is_digit s" and "length s \<le> 3"
  shows "numeric_value s < 1000"
proof -
  from digits_value_bounds [OF assms(1)] digits_value_numeric [OF assms(1)]
  have "int (numeric_value s) < 10 ^ length s" by simp
  also have "(10::int) ^ length s \<le> 10 ^ 3" using assms(2) by (intro power_increasing) simp_all
  finally show ?thesis by simp
qed

section \<open>Claims about the palette builders\<close>

text \<open>
  C6.  In every row the general, alpha and chart builders return, every step is a string
  of two or three decimal digits, and the number the step of a swatch denotes (by place
  value, \<open>numeric_value\<close>) is at most the number the step of the next swatch denotes;
  it is below 1000, and it is what \<^verbatim>\<open>parseNumericStep\<close> returns for that step.  The
  numeric step ignores leading zeros (\<^verbatim>\<open>"01"\<close> and \<^verbatim>\<open>"1"\<close> have the same one, and
  denote the same number); for every string of digits denoting a number up to
  \<^verbatim>\<open>Number.MAX_SAFE_INTEGER\<close> it is that number.  A step that does not parse (empty,
  or no digits after the leading zeros) has the numeric step
  \<^verbatim>\<open>Number.MAX_SAFE_INTEGER\<close>, above those of all swatches of the row.
\<close>

theorem step_ordering:
  assumes "r \<in> set (buildGeneralPalettes lc vs) \<union> set (buildAlphaPalettes lc vs) \<union>
               set (buildChartPalettes lc vs)"
  shows "(\<forall>s \<in> set (row_swatches r).
            list_all is_digit (sw_step s) \<and> 2 \<le> length (sw_step s) \<and>
            length (sw_step s) \<le> 3 \<and> numeric_value (sw_step s) < 1000 \<and>
            parseNumericStep (sw_step s) = int (numeric_value (sw_step s))) \<and>
         (\<forall>i. Suc i < length (row_swatches r) \<longrightarrow>
            numeric_value (sw_step (row_swatches r ! i))
              \<le> numeric_value (sw_step (row_swatches r ! Suc i))) \<and>
         (\<forall>k d. d \<noteq> [] \<longrightarrow>
            parseNumericStep (replicate k (CHR ''0'') @ d) = parseNumericStep d) \<and>
         (\<forall>k d. list_all is_digit d \<and> d \<noteq> [] \<and> int (numeric_value d) \<le> MAX_SAFE_INTEGER
            \<longrightarrow> parseNumericStep d = int (numeric_value d) \<and>
                numeric_value (replicate k (CHR ''0'') @ d) = numeric_value d) \<and>
         (\<forall>st. st = [] \<or> (dropWhile (\<lambda>c. c = CHR ''0'') st \<noteq> [] \<and>
                  parseInt10 (dropWhile (\<lambda>c. c = CHR ''0'') st) = None)
            \<longrightarrow> parseNumericStep st = MAX_SAFE_INTEGER \<and>
                (\<forall>s \<in> set (row_swatches r). parseNumericStep (sw_step s) < parseNumericStep st))"
proof -
  have pn: "parseNumericStep d = int (numeric_value d)"
    if d: "list_all is_digit d" and n: "d \<noteq> []" for d
  proof -
    let ?c = "dropWhile (\<lambda>c. c = CHR ''0'') d"
    have c: "list_all is_digit ?c"
      using d by (auto simp: list_all_iff dest: set_dropWhileD)
    have "parseNumericStep d = digits_value ?c"
    proof (cases "?c = []")
      case True
      show ?thesis by (simp add: parseNumericStep_def True digits_value_def n)
    next
      case False
      with c have "parseInt10 ?c = Some (digits_value ?c)" by (intro parseInt10_digits)
      with False n show ?thesis by (auto simp: parseNumericStep_def Let_def)
    qed
    then show ?thesis
      using d by (simp add: digits_value_dropWhile_zeros digits_value_numeric)
  qed
  have 1: "\<forall>s \<in> set (row_swatches r).
            list_all is_digit (sw_step s) \<and> 2 \<le> length (sw_step s) \<and>
            length (sw_step s) \<le> 3 \<and> numeric_value (sw_step s) < 1000 \<and>
            parseNumericStep (sw_step s) = int (numeric_value (sw_step s))"
  proof
    fix s assume s: "s \<in> set (row_swatches r)"
    from builder_rows_digits [OF assms s]
    have d: "list_all is_digit (sw_step s)" and l: "2 \<le> length (sw_step s)"
      and u: "length (sw_step s) \<le> 3" by simp_all
    from l have n: "sw_step s \<noteq> []" by auto
    from d l u numeric_value_bound [OF d u] pn [OF d n]
    show "list_all is_digit (sw_step s) \<and> 2 \<le> length (sw_step s) \<and>
            length (sw_step s) \<le> 3 \<and> numeric_value (sw_step s) < 1000 \<and>
            parseNumericStep (sw_step s) = int (numeric_value (sw_step s))"
      by (intro conjI)
  qed
  have srt: "sorted (map (\<lambda>s. parseNumericStep (sw_step s)) (row_swatches r))"
    using assms
    by (auto simp: buildGeneralPalettes_def buildAlphaPalettes_def buildChartPalettes_def
          intro: orderRows_sorted)
  have 2: "\<forall>i. Suc i < length (row_swatches r) \<longrightarrow>
            numeric_value (sw_step (row_swatches r ! i))
              \<le> numeric_value (sw_step (row_swatches r ! Suc i))"
  proof (intro allI impI)
    fix i assume i: "Suc i < length (row_swatches r)"
    then have m: "row_swatches r ! i \<in> set (row_swatches r)"
      "row_swatches r ! Suc i \<in> set (row_swatches r)" by simp_all
    from srt i have "parseNumericStep (sw_step (row_swatches r ! i))
              \<le> parseNumericStep (sw_step (row_swatches r ! Suc i))"
      by (auto simp: sorted_iff_nth_Suc)
    with 1 m show "numeric_value (sw_step (row_swatches r ! i))
              \<le> numeric_value (sw_step (row_swatches r ! Suc i))"
      by simp
  qed
  have 3: "\<forall>k d. d \<noteq> [] \<longrightarrow>
            parseNumericStep (replicate k (CHR ''0'') @ d) = parseNumericStep d"
    by (simp add: parseNumericStep_leading_zeros)
  have 4: "\<forall>k d. list_all is_digit d \<and> d \<noteq> [] \<and> int (numeric_value d) \<le> MAX_SAFE_INTEGER
            \<longrightarrow> parseNumericStep d = int (numeric_value d) \<and>
                numeric_value (replicate k (CHR ''0'') @ d) = numeric_value d"
    by (simp add: pn numeric_value_leading_zeros)
  have 5: "\<forall>st. st = [] \<or> (dropWhile (\<lambda>c. c = CHR ''0'') st \<noteq> [] \<and>
                  parseInt10 (dropWhile (\<lambda>c. c = CHR ''0'') st) = None)
            \<longrightarrow> parseNumericStep st = MAX_SAFE_INTEGER \<and>
                (\<forall>s \<in> set (row_swatches r). parseNumericStep (sw_step s) < parseNumericStep st)"
  proof (intro allI impI)
    fix st
    assume "st = [] \<or> (dropWhile (\<lambda>c. c = CHR ''0'') st \<noteq> [] \<and>
                  parseInt10 (dropWhile (\<lambda>c. c = CHR ''0'') st) = None)"
    then have m: "parseNumericStep st = MAX_SAFE_INTEGER" by (rule parseNumericStep_unparsable)
    with 1 show "parseNumericStep st = MAX_SAFE_INTEGER \<and>
                (\<forall>s \<in> set (row_swatches r). parseNumericStep (sw_step s) < parseNumericStep st)"
      by (auto simp: MAX_SAFE_INTEGER_def)
  qed
  from 1 2 3 4 5 show ?thesis by (intro conjI)
qed

text \<open>
  Two sequential chart properties given as 02, 01: the row comes out as 01, 02, the steps
  denoting the numbers 1 and 2.
\<close>

theorem step_ordering_witness:
  "numeric_value (sw_step (row_swatches (hd (buildChartPalettes (\<lambda>a b. 0)
      [(''--prism-color-chart-sequential-info-02'', ''#b3e5fc''),
       (''--prism-color-chart-sequential-info-01'', ''#e0f2fe'')])) ! 0))
     \<le> numeric_value (sw_step (row_swatches (hd (buildChartPalettes (\<lambda>a b. 0)
      [(''--prism-color-chart-sequential-info-02'', ''#b3e5fc''),
       (''--prism-color-chart-sequential-info-01'', ''#e0f2fe'')])) ! Suc 0)) \<and>
   parseNumericStep (sw_step (row_swatches (hd (buildChartPalettes (\<lambda>a b. 0)
      [(''--prism-color-chart-sequential-info-02'', ''#b3e5fc''),
       (''--prism-color-chart-sequential-info-01'', ''#e0f2fe'')])) ! Suc 0))
     = int (numeric_value (sw_step (row_swatches (hd (buildChartPalettes (\<lambda>a b. 0)
      [(''--prism-color-chart-sequential-info-02'', ''#b3e5fc''),
       (''--prism-color-chart-sequential-info-01'', ''#e0f2fe'')])) ! Suc 0))) \<and>
   map sw_step (row_swatches (hd (buildChartPalettes (\<lambda>a b. 0)
      [(''--prism-color-chart-sequential-info-02'', ''#b3e5fc''),
       (''--prism-color-chart-sequential-info-01'', ''#e0f2fe'')]))) = [''01'', ''02''] \<and>
   numeric_value ''01'' = 1 \<and> numeric_value ''02'' = 2 \<and>
   parseNumericStep (replicate 1 (CHR ''0'') @ ''1'') = parseNumericStep ''1'' \<and>
   parseNumericStep ''1'' = int (numeric_value ''1'') \<and>
   numeric_value (replicate 1 (CHR ''0'') @ ''1'') = numeric_value ''1'' \<and>
   parseNumericStep ''x'' = MAX_SAFE_INTEGER"
proof -
  have example_chart_row:
    "(buildChartPalettes (\<lambda>a b. 0)
        [(''--prism-color-chart-sequential-info-02'', ''#b3e5fc''),
         (''--prism-color-chart-sequential-info-01'', ''#e0f2fe'')]) \<noteq> []"
    "Suc 0 < length (row_swatches (hd (buildChartPalettes (\<lambda>a b. 0)
        [(''--prism-color-chart-sequential-info-02'', ''#b3e5fc''),
         (''--prism-color-chart-sequential-info-01'', ''#e0f2fe'')])))"
    "row_id (hd (buildChartPalettes (\<lambda>a b. 0)
        [(''--prism-color-chart-sequential-info-02'', ''#b3e5fc''),
         (''--prism-color-chart-sequential-info-01'', ''#e0f2fe'')])) = ''info''"
    "map sw_step (row_swatches (hd (buildChartPalettes (\<lambda>a b. 0)
        [(''--prism-color-chart-sequential-info-02'', ''#b3e5fc''),
         (''--prism-color-chart-sequential-info-01'', ''#e0f2fe'')]))) = [''01'', ''02'']"
    "map sw_fallback (row_swatches (hd (buildChartPalettes (\<lambda>a b. 0)
        [(''--prism-color-chart-sequential-info-02'', ''#b3e5fc''),
         (''--prism-color-chart-sequential-info-01'', ''#e0f2fe'')]))) = [''#e0f2fe'', ''#b3e5fc'']"
    by code_simp+
  have example_numeric_values:
    "numeric_value ''01'' = 1" "numeric_value ''02'' = 2" "numeric_value ''1'' = 1"
    "numeric_value ''120'' = 120"
    "list_all is_digit ''1''" "''1'' \<noteq> []" "int (numeric_value ''1'') \<le> MAX_SAFE_INTEGER"
    by code_simp+
  let ?b = "(buildChartPalettes (\<lambda>a b. 0)
      [(''--prism-color-chart-sequential-info-02'', ''#b3e5fc''),
       (''--prism-color-chart-sequential-info-01'', ''#e0f2fe'')])"
  have "hd ?b \<in> set ?b" using example_chart_row(1) by (rule hd_in_set)
  then have m: "hd ?b \<in> set (buildGeneralPalettes (\<lambda>a b. 0)
      [(''--prism-color-chart-sequential-info-02'', ''#b3e5fc''),
       (''--prism-color-chart-sequential-info-01'', ''#e0f2fe'')]) \<union>
    set (buildAlphaPalettes (\<lambda>a b. 0)
      [(''--prism-color-chart-sequential-info-02'', ''#b3e5fc''),
       (''--prism-color-chart-sequential-info-01'', ''#e0f2fe'')]) \<union> set ?b"
    by (rule UnI2)
  have u: "''x'' = [] \<or> (dropWhile (\<lambda>c. c = CHR ''0'') ''x'' \<noteq> [] \<and>
           parseInt10 (dropWhile (\<lambda>c. c = CHR ''0'') ''x'') = None)"
    by code_simp
  have n: "''1'' \<noteq> []" by simp
  have d: "list_all is_digit ''1'' \<and> ''1'' \<noteq> [] \<and> int (numeric_value ''1'') \<le> MAX_SAFE_INTEGER"
    using example_numeric_values(5-7) by (intro conjI)
  have e: "row_swatches (hd ?b) ! Suc 0 \<in> set (row_swatches (hd ?b))"
    using example_chart_row(2) by (rule nth_mem)
  note s = step_ordering [OF m]
  from s [THEN conjunct2, THEN conjunct1, THEN spec, THEN mp, OF example_chart_row(2)]
  have 1: "numeric_value (sw_step (row_swatches (hd ?b) ! 0))
     \<le> numeric_value (sw_step (row_swatches (hd ?b) ! Suc 0))" .
  from s [THEN conjunct1, THEN bspec, OF e]
  have 2: "parseNumericStep (sw_step (row_swatches (hd ?b) ! Suc 0))
     = int (numeric_value (sw_step (row_swatches (hd ?b) ! Suc 0)))" by (elim conjE)
  from s [THEN conjunct2, THEN conjunct2, THEN conjunct1, THEN spec, THEN spec, THEN mp, OF n]
  have 3: "parseNumericStep (replicate 1 (CHR ''0'') @ ''1'') = parseNumericStep ''1''" .
  from s [THEN conjunct2, THEN conjunct2, THEN conjunct2, THEN conjunct1, THEN spec, THEN spec,
      THEN mp, OF d]
  have 4: "parseNumericStep ''1'' = int (numeric_value ''1'') \<and>
    numeric_value (replicate 1 (CHR ''0'') @ ''1'') = numeric_value ''1''" .
  from s [THEN conjunct2, THEN conjunct2, THEN conjunct2, THEN conjunct2, THEN spec, THEN mp,
      OF u, THEN conjunct1]
  have 5: "parseNumericStep ''x'' = MAX_SAFE_INTEGER" .
  from 1 2 example_chart_row(4) example_numeric_values(1,2) 3 4 5
  show ?thesis by (intro conjI) (elim conjE; assumption)+
qed

text \<open>
  C7.  No property is placed both in the general and in the alpha palette set: a swatch of
  a general row and a swatch of an alpha row never stand for the same property, because
  the name of the first does not contain \<^verbatim>\<open>-alpha-\<close> and the name of the second does.
\<close>

theorem alpha_general_exclusive:
  assumes "r1 \<in> set (buildGeneralPalettes lc vs)" and "s1 \<in> set (row_swatches r1)"
      and "r2 \<in> set (buildAlphaPalettes lc vs)" and "s2 \<in> set (row_swatches r2)"
  shows "sw_cssVar s1 \<noteq> sw_cssVar s2 \<and>
         sw_cssVar s1 \<in> set (obj_keys vs) \<and> \<not> includes_str (sw_cssVar s1) ''-alpha-'' \<and>
         sw_cssVar s2 \<in> set (obj_keys vs) \<and> includes_str (sw_cssVar s2) ''-alpha-''"
proof -
  from orderRows_all [OF general_rows assms(1) [unfolded buildGeneralPalettes_def] assms(2)]
  have g: "sw_cssVar s1 \<in> set (obj_keys vs)" "\<not> includes_str (sw_cssVar s1) ''-alpha-''"
    by auto
  from orderRows_all [OF alpha_rows assms(3) [unfolded buildAlphaPalettes_def] assms(4)]
  have a: "sw_cssVar s2 \<in> set (obj_keys vs)" "startsWith (sw_cssVar s2) ''--prism-color-general-alpha-''"
    by auto
  from a(2) have "includes_str (sw_cssVar s2) ''-alpha-''" by (rule alpha_prefix_includes(1))
  with g a(1) show ?thesis by auto
qed

lemma example_general_alpha:
  "(buildGeneralPalettes (\<lambda>a b. 0)
      [(''--prism-color-general-info-100'', ''#0af''),
       (''--prism-color-general-alpha-info-10'', ''#0af1'')]) \<noteq> []"
  "row_swatches (hd (buildGeneralPalettes (\<lambda>a b. 0)
      [(''--prism-color-general-info-100'', ''#0af''),
       (''--prism-color-general-alpha-info-10'', ''#0af1'')])) \<noteq> []"
  "(buildAlphaPalettes (\<lambda>a b. 0)
      [(''--prism-color-general-info-100'', ''#0af''),
       (''--prism-color-general-alpha-info-10'', ''#0af1'')]) \<noteq> []"
  "row_swatches (hd (buildAlphaPalettes (\<lambda>a b. 0)
      [(''--prism-color-general-info-100'', ''#0af''),
       (''--prism-color-general-alpha-info-10'', ''#0af1'')])) \<noteq> []"
  by code_simp+

theorem alpha_general_exclusive_witness:
  "sw_cssVar (hd (row_swatches (hd (buildGeneralPalettes (\<lambda>a b. 0)
      [(''--prism-color-general-info-100'', ''#0af''),
       (''--prism-color-general-alpha-info-10'', ''#0af1'')]))))
     \<noteq> sw_cssVar (hd (row_swatches (hd (buildAlphaPalettes (\<lambda>a b. 0)
      [(''--prism-color-general-info-100'', ''#0af''),
       (''--prism-color-general-alpha-info-10'', ''#0af1'')])))) \<and>
   includes_str (sw_cssVar (hd (row_swatches (hd (buildAlphaPalettes (\<lambda>a b. 0)
      [(''--prism-color-general-info-100'', ''#0af''),
       (''--prism-color-general-alpha-info-10'', ''#0af1'')]))))) ''-alpha-''"
proof -
  note s = alpha_general_exclusive
    [OF hd_in_set [OF example_general_alpha(1)] hd_in_set [OF example_general_alpha(2)]
        hd_in_set [OF example_general_alpha(3)] hd_in_set [OF example_general_alpha(4)]]
  from s [THEN conjunct1] s [THEN conjunct2, THEN conjunct2, THEN conjunct2, THEN conjunct2]
  show ?thesis by (intro conjI)
qed


section \<open>Facts about the extraction engine\<close>

lemma foldl_fallback_line:
  "obj_get (foldl fallback_line vs ls) k =
     (case obj_get (foldl fallback_line [] ls) k of Some v \<Rightarrow> Some v | None \<Rightarrow> obj_get vs k)"
proof (induction ls rule: rev_induct)
  case Nil
  then show ?case by (simp add: obj_get_def)
next
  case (snoc l ls)
  then show ?case
    by (auto simp: fallback_line_def Let_def obj_get_obj_set split: option.splits)
qed

lemma theme_loop_matches: "theme_loop css st = foldl theme_step st (theme_matches css)"
proof (induction css st rule: theme_loop.induct)
  case (1 st)
  then show ?case by simp
next
  case (2 c cs st)
  show ?case
  proof (cases "themeSelRegex_at (c # cs)")
    case None
    then show ?thesis using 2(1) by simp
  next
    case (Some p)
    obtain m1 n where p: "p = (m1, n)" by (cases p)
    show ?thesis
      using Some p 2(2) [OF Some [unfolded p] refl refl] 2(3) [OF Some [unfolded p] refl refl]
      by (auto simp: theme_step_def Let_def)
  qed
qed

lemma obj_get_store_theme_other:
  "t \<noteq> r \<Longrightarrow> obj_get (store_theme m r c) t = obj_get m t"
  by (simp add: store_theme_def Let_def obj_get_obj_set)

lemma obj_get_store_theme_same:
  "obj_get (store_theme m t c) t =
     (if c = [] \<or> t \<in> set Object_prototype_members then obj_get m t
      else Some (obj_assign (or_empty (obj_get m t)) (parseCSSVarBlock c)))"
  by (auto simp: store_theme_def Let_def obj_get_obj_set or_empty_def)

lemma theme_step_seen:
  "t \<in> set (fst st) \<Longrightarrow>
   t \<in> set (fst (theme_step st ms)) \<and> obj_get (snd (theme_step st ms)) t = obj_get (snd st) t"
  by (cases "fst ms = t") (auto simp: theme_step_def obj_get_store_theme_other)

lemma foldl_theme_step_seen:
  "t \<in> set (fst st) \<Longrightarrow> obj_get (snd (foldl theme_step st ms)) t = obj_get (snd st) t"
proof (induction ms arbitrary: st)
  case Nil
  then show ?case by simp
next
  case (Cons a ms)
  from theme_step_seen [OF Cons.prems, of a]
  have 1: "t \<in> set (fst (theme_step st a))"
    and 2: "obj_get (snd (theme_step st a)) t = obj_get (snd st) t" by simp_all
  show ?case using Cons.IH [OF 1] 2 by simp
qed

lemma foldl_theme_step_first:
  assumes "t \<noteq> []" and "t \<notin> set (fst st)"
  shows "obj_get (snd (foldl theme_step st ms)) t =
           (case map_of ms t of
              None \<Rightarrow> obj_get (snd st) t
            | Some s \<Rightarrow> obj_get (store_theme (snd st) t (extractBlockAt s)) t)"
  using assms(2)
proof (induction ms arbitrary: st)
  case Nil
  then show ?case by simp
next
  case (Cons a ms)
  obtain r s where a: "a = (r, s)" by (cases a)
  show ?case
  proof (cases "r = t")
    case True
    have st': "theme_step st a = (t # fst st, store_theme (snd st) t (extractBlockAt s))"
      using True a assms(1) Cons.prems by (simp add: theme_step_def)
    have "obj_get (snd (foldl theme_step (theme_step st a) ms)) t =
            obj_get (snd (theme_step st a)) t"
      by (rule foldl_theme_step_seen) (simp add: st')
    then show ?thesis using True a st' by simp
  next
    case False
    have n: "t \<notin> set (fst (theme_step st a))"
      using False a Cons.prems by (auto simp: theme_step_def)
    have g: "obj_get (snd (theme_step st a)) t = obj_get (snd st) t"
      using False a by (auto simp: theme_step_def obj_get_store_theme_other)
    show ?thesis
      using Cons.IH [OF n] False a g
      by (simp add: obj_get_store_theme_same split: option.splits)
  qed
qed

lemma obj_get_probe_fallback_other:
  "t \<noteq> ''root'' \<Longrightarrow> obj_get (probe_fallback css m) t = obj_get m t"
  by (auto simp: probe_fallback_def Let_def obj_get_obj_set split: option.splits)

lemma probe_fallback_absent:
  "\<not> includes_str css (probeName @ '':'') \<Longrightarrow> probe_fallback css m = m"
  by (simp add: probe_fallback_def Let_def)

lemma parseTokensCSS_theme:
  assumes "t \<noteq> []" and "t \<noteq> ''root''"
  shows "obj_get (parseTokensCSS css) t =
           (case map_of (theme_matches css) t of
              None \<Rightarrow> None
            | Some s \<Rightarrow>
                if extractBlockAt s = [] \<or> t \<in> set Object_prototype_members then None
                else Some (obj_assign [] (parseCSSVarBlock (extractBlockAt s))))"
proof -
  let ?m = "[(''root'', root_loop css [])]"
  have 0: "obj_get ?m t = None" using assms(2) by (simp add: obj_get_def)
  have "obj_get (parseTokensCSS css) t = obj_get (snd (foldl theme_step ([], ?m) (theme_matches css))) t"
    using assms(2) by (simp add: parseTokensCSS_def Let_def obj_get_probe_fallback_other theme_loop_matches)
  also have "\<dots> = (case map_of (theme_matches css) t of
              None \<Rightarrow> obj_get ?m t
            | Some s \<Rightarrow> obj_get (store_theme ?m t (extractBlockAt s)) t)"
    using foldl_theme_step_first [OF assms(1), of "([], ?m)" "theme_matches css"]
    by (simp split: option.splits)
  also have "\<dots> = (case map_of (theme_matches css) t of
              None \<Rightarrow> None
            | Some s \<Rightarrow>
                if extractBlockAt s = [] \<or> t \<in> set Object_prototype_members then None
                else Some (obj_assign [] (parseCSSVarBlock (extractBlockAt s))))"
    unfolding obj_get_store_theme_same 0 by (simp add: or_empty_def split: option.splits)
  finally show ?thesis .
qed

lemma parseTokensCSS_root:
  assumes "''root'' \<notin> set (map fst (theme_matches css))"
  shows "obj_get (snd (theme_loop css ([], [(''root'', root_loop css [])]))) ''root'' =
           Some (root_loop css [])"
proof -
  have n: "''root'' \<noteq> []" by simp
  have m: "map_of (theme_matches css) ''root'' = None"
    using assms by (simp add: map_of_eq_None_iff)
  show ?thesis
    unfolding theme_loop_matches
    using foldl_theme_step_first [OF n, of "([], [(''root'', root_loop css [])])" "theme_matches css"] m
    by (simp add: obj_get_def)
qed

lemma space_not_colon: "is_space x \<Longrightarrow> x \<noteq> CHR '':''"
  by (auto simp: is_space_def)

lemma take_takeWhile_Suc:
  assumes "dropWhile P d \<noteq> []"
  shows "take (length (takeWhile P d) + 1) d = takeWhile P d @ [hd (dropWhile P d)]"
proof -
  obtain x r where r: "dropWhile P d = x # r" using assms by (cases "dropWhile P d") auto
  define tw where "tw = takeWhile P d"
  have d: "d = tw @ x # r" by (metis r tw_def takeWhile_dropWhile_id)
  have "take (length tw + 1) (tw @ x # r) = tw @ [x]" by simp
  then have "take (length tw + 1) d = tw @ [x]" by (simp only: d [symmetric])
  then show ?thesis unfolding tw_def by (simp only: r list.sel)
qed

lemma rootRegex_at_shape:
  assumes "rootRegex_at s = Some n"
  shows "take n s = '':root'' @ takeWhile is_space (drop 5 s) @ ''{''"
    and "n = 6 + length (takeWhile is_space (drop 5 s))"
    and "n \<le> length s"
proof -
  define d where "d = drop 5 s"
  from assms have sw: "startsWith s '':root''" and r: "dropWhile is_space d \<noteq> []"
    and h: "hd (dropWhile is_space d) = CHR ''{''"
    and n: "n = length s - length (dropWhile is_space d) + 1"
    by (auto simp: rootRegex_at_def Let_def d_def split: if_splits)
  have "length '':root'' = 5" by simp
  with sw have t5: "take 5 s = '':root''" unfolding startsWith_def by (simp only:)
  have "length (take 5 s) = 5" by (simp only: t5) simp
  then have l5: "5 \<le> length s" by simp
  have ld: "length d = length (takeWhile is_space d) + length (dropWhile is_space d)"
    by (metis length_append takeWhile_dropWhile_id)
  have ls: "length s = 5 + length d" using l5 by (simp add: d_def)
  have r1: "1 \<le> length (dropWhile is_space d)" using r by (cases "dropWhile is_space d") simp_all
  show n': "n = 6 + length (takeWhile is_space (drop 5 s))"
    using n ls ld r1 unfolding d_def by linarith
  show "n \<le> length s" using n ls ld r1 by linarith
  have "take n s = take (5 + (length (takeWhile is_space d) + 1)) s"
    using n' by (simp add: d_def)
  also have "\<dots> = take 5 s @ take (length (takeWhile is_space d) + 1) d"
    unfolding d_def by (rule take_add)
  also have "\<dots> = '':root'' @ takeWhile is_space d @ ''{''"
    by (simp only: t5 take_takeWhile_Suc [OF r] h)
  finally show "take n s = '':root'' @ takeWhile is_space (drop 5 s) @ ''{''"
    by (simp only: d_def)
qed

lemma rootRegex_at_hd: "rootRegex_at s \<noteq> None \<Longrightarrow> s \<noteq> [] \<and> hd s = CHR '':''"
  using startsWith_hd [of s "'':root''"]
  by (auto simp: rootRegex_at_def Let_def split: if_splits)

lemma rootRegex_at_no_overlap:
  assumes "rootRegex_at s = Some n" and "0 < k" and "k < n"
  shows "rootRegex_at (drop k s) = None"
proof (rule ccontr)
  assume "rootRegex_at (drop k s) \<noteq> None"
  then have h: "drop k s \<noteq> []" "hd (drop k s) = CHR '':''" using rootRegex_at_hd by blast+
  note sh = rootRegex_at_shape [OF assms(1)]
  define w where "w = takeWhile is_space (drop 5 s)"
  from h(1) have kl: "k < length s" by simp
  have "hd (drop k s) = s ! k" using kl by (simp add: hd_drop_conv_nth)
  also have "\<dots> = take n s ! k" using assms(3) by simp
  also have "\<dots> = ('':root'' @ w @ ''{'') ! k" by (simp only: sh(1) w_def)
  also have "\<dots> = (''root'' @ w @ ''{'') ! (k - 1)"
    using assms(2) by (cases k) simp_all
  finally have e: "(''root'' @ w @ ''{'') ! (k - 1) = CHR '':''" using h(2) by simp
  have "k - 1 < length (''root'' @ w @ ''{'')"
    using assms(2,3) sh(2) by (simp add: w_def)
  then have "(''root'' @ w @ ''{'') ! (k - 1) \<in> set (''root'' @ w @ ''{'')"
    by (rule nth_mem)
  with e have "CHR '':'' \<in> set (''root'' @ w @ ''{'')" by simp
  then have "CHR '':'' \<in> set w" by simp
  then have "is_space (CHR '':'')" unfolding w_def by (meson set_takeWhileD)
  then show False using space_not_colon by blast
qed

lemma filter_positions_skip:
  "\<forall>k<j. \<not> P (drop k cs) \<Longrightarrow> j \<le> length cs \<Longrightarrow>
   filter P (positions cs) = filter P (positions (drop j cs))"
proof (induction cs arbitrary: j)
  case Nil
  then show ?case by simp
next
  case (Cons c cs)
  show ?case
  proof (cases j)
    case 0
    then show ?thesis by simp
  next
    case (Suc j')
    have "\<not> P (c # cs)" using Cons.prems(1) Suc by force
    moreover have "\<forall>k<j'. \<not> P (drop k cs)"
    proof (intro allI impI)
      fix k assume "k < j'"
      then have "Suc k < j" using Suc by simp
      with Cons.prems(1) have "\<not> P (drop (Suc k) (c # cs))" by blast
      then show "\<not> P (drop k cs)" by simp
    qed
    moreover have "j' \<le> length cs" using Cons.prems(2) Suc by simp
    ultimately show ?thesis using Cons.IH [of j'] Suc by simp
  qed
qed

lemma rootRegex_at_Nil: "rootRegex_at [] = None"
  by (simp add: rootRegex_at_def startsWith_def)

lemma root_loop_blocks: "root_loop css root = merge_blocks root (base_blocks css)"
proof (induction css root rule: root_loop.induct)
  case (1 root)
  then show ?case by (simp add: merge_blocks_def base_blocks_def rootRegex_at_Nil)
next
  case (2 c cs root)
  show ?case
  proof (cases "rootRegex_at (c # cs)")
    case None
    then show ?thesis using 2(1) by (simp add: merge_blocks_def base_blocks_def)
  next
    case (Some n)
    note sh = rootRegex_at_shape [OF Some]
    have "\<forall>k<n - 1. \<not> (rootRegex_at (drop k cs) \<noteq> None)"
    proof (intro allI impI)
      fix k assume "k < n - 1"
      then have "0 < Suc k" "Suc k < n" by simp_all
      from rootRegex_at_no_overlap [OF Some this]
      show "\<not> (rootRegex_at (drop k cs) \<noteq> None)" by simp
    qed
    moreover have "n - 1 \<le> length cs" using sh(3) by simp
    ultimately have f: "filter (\<lambda>s. rootRegex_at s \<noteq> None) (positions cs) =
        filter (\<lambda>s. rootRegex_at s \<noteq> None) (positions (drop (n - 1) cs))"
      by (rule filter_positions_skip)
    have b: "base_blocks (c # cs) = extractBlockAt (c # cs) # base_blocks (drop (n - 1) cs)"
      using Some f by (simp add: base_blocks_def)
    show ?thesis
      using 2(2) [OF Some refl] Some
      by (simp add: b merge_blocks_def merge_block_def Let_def)
  qed
qed

lemma no_base_blocks:
  "list_all (\<lambda>s. rootRegex_at s = None) (positions css) \<Longrightarrow> base_blocks css = []"
  by (simp add: base_blocks_def list_all_iff filter_empty_conv)

lemma rootMatch_None:
  "list_all (\<lambda>s. rootRegex_at s = None) (positions css) \<Longrightarrow> rootMatch css = None"
  by (induction css) (simp_all add: rootBlock_at_def)

lemma distinct_primary_loop:
  "distinct (obj_keys (fst st)) \<Longrightarrow> distinct (obj_keys (fst (primary_loop s st)))"
proof (induction s st rule: primary_loop.induct)
  case (1 st)
  then show ?case by simp
next
  case (2 c cs st)
  show ?case
  proof (cases "varRegex_at (c # cs)")
    case None
    then show ?thesis using 2 by simp
  next
    case (Some p)
    obtain m1 m2 n where p: "p = (m1, m2, n)" by (cases p)
    show ?thesis
      using Some p 2(2) [OF Some [unfolded p] refl refl refl refl] 2(3)
      by (auto simp: Let_def distinct_obj_set split: if_splits)
  qed
qed

lemma distinct_parseCSSVarBlock: "distinct (obj_keys (parseCSSVarBlock b))"
proof -
  have p: "distinct (obj_keys (fst (primary_pass b)))"
    unfolding primary_pass_def by (rule distinct_primary_loop) (simp add: obj_keys_Nil)
  have "distinct (obj_keys (foldl fallback_line (fst (primary_pass b)) ls))" for ls
    using p
    by (rule distinct_foldl_sets [rotated])
       (auto simp: fallback_line_def Let_def distinct_obj_set split: option.splits)
  with p show ?thesis by (simp add: parseCSSVarBlock_def Let_def)
qed

lemma merge_blocks_snoc:
  "obj_get (merge_blocks root (blocks @ [b])) k =
     (if b = [] then obj_get (merge_blocks root blocks) k
      else case obj_get (parseCSSVarBlock b) k of
             Some v \<Rightarrow> Some v
           | None \<Rightarrow> obj_get (merge_blocks root blocks) k)"
  by (simp add: merge_blocks_def merge_block_def obj_get_obj_assign distinct_parseCSSVarBlock
        split: option.splits)

text \<open>Facts about the balance of braces, and about the first occurrence of a character.\<close>

lemma brace_balance_Nil: "brace_balance [] = 0"
  by (simp add: brace_balance_def)

lemma brace_balance_Cons:
  "brace_balance (c # cs) =
     (if c = CHR ''{'' then 1 else if c = CHR ''}'' then - 1 else 0) + brace_balance cs"
  by (simp add: brace_balance_def)

lemma open_prefixes_iff:
  "open_prefixes cs \<longleftrightarrow> (\<forall>n\<le>length cs. 0 \<le> brace_balance (take n cs))"
  by (auto simp: open_prefixes_def list_all_iff less_Suc_eq_le)

lemma depth_prefixes_Cons:
  "(\<forall>n\<le>length (c # cs). 1 \<le> d + brace_balance (take n (c # cs))) \<longleftrightarrow>
     1 \<le> d \<and>
     (\<forall>n\<le>length cs.
        1 \<le> d + (if c = CHR ''{'' then 1 else if c = CHR ''}'' then - 1 else 0)
               + brace_balance (take n cs))"
proof
  assume a: "\<forall>n\<le>length (c # cs). 1 \<le> d + brace_balance (take n (c # cs))"
  from a [THEN spec, of 0] have "1 \<le> d" by (simp add: brace_balance_Nil)
  moreover have "1 \<le> d + (if c = CHR ''{'' then 1 else if c = CHR ''}'' then - 1 else 0)
               + brace_balance (take n cs)" if "n \<le> length cs" for n
    using a [THEN spec, of "Suc n"] that by (simp add: brace_balance_Cons)
  ultimately show "1 \<le> d \<and>
     (\<forall>n\<le>length cs.
        1 \<le> d + (if c = CHR ''{'' then 1 else if c = CHR ''}'' then - 1 else 0)
               + brace_balance (take n cs))" by blast
next
  assume b: "1 \<le> d \<and>
     (\<forall>n\<le>length cs.
        1 \<le> d + (if c = CHR ''{'' then 1 else if c = CHR ''}'' then - 1 else 0)
               + brace_balance (take n cs))"
  show "\<forall>n\<le>length (c # cs). 1 \<le> d + brace_balance (take n (c # cs))"
  proof (intro allI impI)
    fix n assume n: "n \<le> length (c # cs)"
    show "1 \<le> d + brace_balance (take n (c # cs))"
    proof (cases n)
      case 0
      then show ?thesis using b by (simp add: brace_balance_Nil)
    next
      case (Suc m)
      with n have "m \<le> length cs" by simp
      with b have "1 \<le> d + (if c = CHR ''{'' then 1 else if c = CHR ''}'' then - 1 else 0)
               + brace_balance (take m cs)" by blast
      then show ?thesis using Suc by (simp add: brace_balance_Cons)
    qed
  qed
qed

lemma find_sub_first:
  "c \<notin> set pre \<Longrightarrow> find_sub [c] (pre @ c # r) = Some (length pre)"
  by (induction pre) (auto simp: startsWith_def)

lemma find_sub_absent: "c \<notin> set s \<Longrightarrow> find_sub [c] s = None"
  by (induction s) (auto simp: startsWith_def)

text \<open>The root map after the probe fallback.\<close>

lemma root_not_member: "''root'' \<notin> set Object_prototype_members"
  by (simp add: Object_prototype_members_def)

lemma parseTokensCSS_root_map:
  assumes "''root'' \<notin> set (map fst (theme_matches css))"
  shows "obj_get (parseTokensCSS css) ''root'' =
           Some (let merged = merge_blocks [] (base_blocks css) in
                 if (obj_get merged probeName = None \<or> obj_get merged probeName = Some []) \<and>
                    includes_str css (probeName @ '':'')
                 then (case probe_match css of
                         Some m1 \<Rightarrow> obj_set merged probeName (trim m1)
                       | None \<Rightarrow> merged)
                 else merged)"
proof -
  define m where "m = snd (theme_loop css ([], [(''root'', root_loop css [])]))"
  have r: "obj_get m ''root'' = Some (merge_blocks [] (base_blocks css))"
    unfolding m_def using parseTokensCSS_root [OF assms] by (simp only: root_loop_blocks)
  have p: "parseTokensCSS css = probe_fallback css m"
    by (simp add: parseTokensCSS_def Let_def m_def)
  show ?thesis
    unfolding p
    by (simp add: probe_fallback_def Let_def r or_empty_def obj_get_obj_set split: option.splits)
qed

text \<open>The first match of the palette explorer's root pattern.\<close>

lemma rootMatch_skip:
  "\<forall>k<j. rootBlock_at (drop k cs) = None \<Longrightarrow> j \<le> length cs \<Longrightarrow>
   rootMatch cs = rootMatch (drop j cs)"
proof (induction cs arbitrary: j)
  case Nil
  then show ?case by simp
next
  case (Cons c cs)
  show ?case
  proof (cases j)
    case 0
    then show ?thesis by simp
  next
    case (Suc j')
    have "rootBlock_at (c # cs) = None" using Cons.prems(1) Suc by force
    moreover have "\<forall>k<j'. rootBlock_at (drop k cs) = None"
    proof (intro allI impI)
      fix k assume "k < j'"
      then have "Suc k < j" using Suc by simp
      with Cons.prems(1) have "rootBlock_at (drop (Suc k) (c # cs)) = None" by blast
      then show "rootBlock_at (drop k cs) = None" by simp
    qed
    moreover have "j' \<le> length cs" using Cons.prems(2) Suc by simp
    ultimately show ?thesis using Cons.IH [of j'] Suc by simp
  qed
qed

lemma rootBlock_at_no_selector: "rootRegex_at s = None \<Longrightarrow> rootBlock_at s = None"
  by (simp add: rootBlock_at_def)

lemma length_takeWhile_all:
  "length (takeWhile P xs) = length xs \<longleftrightarrow> (\<forall>x\<in>set xs. P x)"
  by (induction xs) auto

lemma rootBlock_at_no_close:
  assumes "CHR ''}'' \<notin> set s"
  shows "rootBlock_at s = None"
proof (cases "rootRegex_at s")
  case None
  then show ?thesis by (simp add: rootBlock_at_def)
next
  case (Some n)
  have "\<forall>x\<in>set (drop n s). x \<noteq> CHR ''}''" using assms by (auto dest: in_set_dropD)
  then have "length (takeWhile (\<lambda>x. x \<noteq> CHR ''}'') (drop n s)) = length (drop n s)"
    by (simp only: length_takeWhile_all)
  then show ?thesis using Some by (simp add: rootBlock_at_def Let_def)
qed

lemma rootMatch_no_close: "CHR ''}'' \<notin> set s \<Longrightarrow> rootMatch s = None"
  by (induction s) (simp_all add: rootBlock_at_no_close)

lemma rootMatch_first:
  assumes "\<forall>k<length pre. rootRegex_at (drop k (pre @ s)) = None"
    and "rootRegex_at s = Some n"
  shows "rootMatch (pre @ s) =
           (if CHR ''}'' \<in> set (drop n s)
            then Some (takeWhile (\<lambda>x. x \<noteq> CHR ''}'') (drop n s)) else None)"
proof -
  have "\<forall>k<length pre. rootBlock_at (drop k (pre @ s)) = None"
    using assms(1) by (simp add: rootBlock_at_no_selector)
  then have "rootMatch (pre @ s) = rootMatch (drop (length pre) (pre @ s))"
    by (rule rootMatch_skip) simp
  then have 1: "rootMatch (pre @ s) = rootMatch s" by simp
  from assms(2) rootRegex_at_hd [of s] obtain c cs where s: "s = c # cs" by (cases s) auto
  show ?thesis
  proof (cases "CHR ''}'' \<in> set (drop n s)")
    case True
    then have "\<not> (\<forall>x\<in>set (drop n s). x \<noteq> CHR ''}'')" by blast
    then have "length (takeWhile (\<lambda>x. x \<noteq> CHR ''}'') (drop n s)) \<noteq> length (drop n s)"
      using length_takeWhile_all [of "\<lambda>x. x \<noteq> CHR ''}''" "drop n s"] by blast
    then have "rootBlock_at s = Some (takeWhile (\<lambda>x. x \<noteq> CHR ''}'') (drop n s))"
      using assms(2) by (simp add: rootBlock_at_def Let_def)
    then show ?thesis using True 1 by (simp add: s)
  next
    case False
    note sh = rootRegex_at_shape [OF assms(2)]
    have "\<forall>k<n. rootBlock_at (drop k s) = None"
    proof (intro allI impI)
      fix k assume k: "k < n"
      show "rootBlock_at (drop k s) = None"
      proof (cases k)
        case 0
        have "\<forall>x\<in>set (drop n s). x \<noteq> CHR ''}''" using False by blast
        then have "length (takeWhile (\<lambda>x. x \<noteq> CHR ''}'') (drop n s)) = length (drop n s)"
          by (simp only: length_takeWhile_all)
        then show ?thesis using assms(2) 0 by (simp add: rootBlock_at_def Let_def)
      next
        case (Suc k')
        then have "0 < k" by simp
        from rootRegex_at_no_overlap [OF assms(2) this k]
        show ?thesis by (rule rootBlock_at_no_selector)
      qed
    qed
    then have "rootMatch s = rootMatch (drop n s)"
      using sh(3) by (rule rootMatch_skip)
    also have "\<dots> = None" using False by (rule rootMatch_no_close)
    finally show ?thesis using False 1 by simp
  qed
qed

lemma list_all_upt: "list_all P [0..<n] \<Longrightarrow> \<forall>k<n. P k"
  by (simp add: list_all_iff)

section \<open>Claims about the extraction engine\<close>

text \<open>
  C10.  When the primary regular expression yields fewer than 500 declarations, the map
  \<^verbatim>\<open>parseCSSVarBlock\<close> returns is the primary pass's map with the fallback splitter's
  finds written over it: a name has the value the fallback found for it, and otherwise
  keeps the value of the primary pass.
\<close>

theorem fallback_merges_into_primary:
  assumes "snd (primary_pass block) < 500"
  shows "obj_get (parseCSSVarBlock block) k =
           (case obj_get (fallback_only block) k of
              Some v \<Rightarrow> Some v
            | None \<Rightarrow> obj_get (fst (primary_pass block)) k)"
  using assms foldl_fallback_line [of "fst (primary_pass block)"]
  by (simp add: parseCSSVarBlock_def fallback_only_def Let_def)

lemma example_block:
  "snd (primary_pass (''--a: 1; x'' @ [CHR 0x0A] @ ''--b: 2;'')) < 500"
  "obj_get (fst (primary_pass (''--a: 1; x'' @ [CHR 0x0A] @ ''--b: 2;''))) ''--a'' = Some ''1''"
  "obj_get (fst (primary_pass (''--a: 1; x'' @ [CHR 0x0A] @ ''--b: 2;''))) ''--b'' = Some ''2''"
  "obj_get (fallback_only (''--a: 1; x'' @ [CHR 0x0A] @ ''--b: 2;'')) ''--a'' =
     Some (''1; x'' @ [CHR 0x0A] @ ''--b: 2'')"
  "obj_get (fallback_only (''--a: 1; x'' @ [CHR 0x0A] @ ''--b: 2;'')) ''--b'' = None"
  by code_simp+

theorem fallback_merges_into_primary_witness:
  "obj_get (parseCSSVarBlock (''--a: 1; x'' @ [CHR 0x0A] @ ''--b: 2;'')) ''--a'' =
     Some (''1; x'' @ [CHR 0x0A] @ ''--b: 2'') \<and>
   obj_get (parseCSSVarBlock (''--a: 1; x'' @ [CHR 0x0A] @ ''--b: 2;'')) ''--b'' = Some ''2''"
proof -
  note t = fallback_merges_into_primary [OF example_block(1)]
  have "obj_get (parseCSSVarBlock (''--a: 1; x'' @ [CHR 0x0A] @ ''--b: 2;'')) ''--a'' =
     Some (''1; x'' @ [CHR 0x0A] @ ''--b: 2'')"
    using t [of "''--a''"] example_block(4) by (simp only: option.case)
  moreover have "obj_get (parseCSSVarBlock (''--a: 1; x'' @ [CHR 0x0A] @ ''--b: 2;'')) ''--b'' = Some ''2''"
    using t [of "''--b''"] example_block(3,5) by (simp only: option.case)
  ultimately show ?thesis by (rule conjI)
qed

text \<open>
  C8 as stated fails for the token explorer: a text with no base block at all, in which
  the probe property is declared, gets a root map holding the probe property.
\<close>

theorem empty_base_map_counterexample:
  "list_all (\<lambda>s. rootRegex_at s = None) (positions ''--prism-color-chart-accent-primary-figure-default:red;'') \<and>
   obj_get (parseTokensCSS ''--prism-color-chart-accent-primary-figure-default:red;'') ''root'' =
     Some [(''--prism-color-chart-accent-primary-figure-default'', ''red'')]"
  by code_simp

text \<open>
  C8, amended.  For a stylesheet text in which the root selector pattern matches nowhere,
  the palette explorer's extraction returns an empty root map; the token explorer's
  returns an empty root map when, in addition, the text does not contain the probe
  property followed by a colon (the probe fallback then stays idle) and no theme selector
  is named \<^verbatim>\<open>root\<close>.
\<close>

theorem no_base_block_empty_root:
  assumes "list_all (\<lambda>s. rootRegex_at s = None) (positions cssText)"
  shows "rootVars (extractCSSVars cssText theme) = [] \<and>
         (''root'' \<notin> set (map fst (theme_matches cssText)) \<and>
          \<not> includes_str cssText (probeName @ '':'')
            \<longrightarrow> obj_get (parseTokensCSS cssText) ''root'' = Some [])"
proof -
  have 1: "rootVars (extractCSSVars cssText theme) = []"
    using rootMatch_None [OF assms] by (simp add: extractCSSVars_def)
  have r: "root_loop cssText [] = []"
    unfolding root_loop_blocks no_base_blocks [OF assms] by (simp add: merge_blocks_def)
  have 2: "obj_get (parseTokensCSS cssText) ''root'' = Some []"
    if "''root'' \<notin> set (map fst (theme_matches cssText))"
      and "\<not> includes_str cssText (probeName @ '':'')"
    using parseTokensCSS_root [OF that(1)] probe_fallback_absent [OF that(2)] r
    by (simp add: parseTokensCSS_def Let_def)
  from 1 2 show ?thesis by blast
qed

lemma example_no_base:
  "list_all (\<lambda>s. rootRegex_at s = None) (positions ''[data-theme=dark]{--a:1;}'')"
  "''root'' \<notin> set (map fst (theme_matches ''[data-theme=dark]{--a:1;}''))"
  "\<not> includes_str ''[data-theme=dark]{--a:1;}'' (probeName @ '':'')"
  by code_simp+

theorem no_base_block_empty_root_witness:
  "rootVars (extractCSSVars ''[data-theme=dark]{--a:1;}'' ''dark'') = [] \<and>
   obj_get (parseTokensCSS ''[data-theme=dark]{--a:1;}'') ''root'' = Some []"
proof -
  note t = no_base_block_empty_root [OF example_no_base(1), of "''dark''"]
  from t [THEN conjunct1]
    t [THEN conjunct2, THEN mp, OF conjI [OF example_no_base(2) example_no_base(3)]]
  show ?thesis by (rule conjI)
qed

text \<open>
  C3 as stated fails for the palette explorer: of two base blocks it reads the first only,
  and it ends a block at the first closing brace, whatever the nesting.
\<close>

theorem base_extraction_counterexample:
  "base_blocks '':root{--a:1;}:root{--b:2;}'' = [''--a:1;'', ''--b:2;''] \<and>
   obj_get (merge_blocks [] (base_blocks '':root{--a:1;}:root{--b:2;}'')) ''--b'' = Some ''2'' \<and>
   obj_get (rootVars (extractCSSVars '':root{--a:1;}:root{--b:2;}'' ''light'')) ''--b'' = None \<and>
   base_blocks '':root{--w:{x};--b:2;}'' = [''--w:{x};--b:2;''] \<and>
   obj_get (merge_blocks [] (base_blocks '':root{--w:{x};--b:2;}'')) ''--b'' = Some ''2'' \<and>
   rootVars (extractCSSVars '':root{--w:{x};--b:2;}'' ''light'') = []"
  by code_simp

text \<open>
  C3, amended.  In the token explorer, the base pass of \<^verbatim>\<open>parseTokensCSS\<close> takes the
  block at every place where the root selector pattern matches, extracts its body by
  brace depth, and merges the non-empty bodies in encounter order, a later declaration of
  a name overriding an earlier one.  When no theme selector is named \<^verbatim>\<open>root\<close> or
  \<^verbatim>\<open>__proto__\<close>, the root map returned is that merge, to which the probe fallback adds
  the probe property in one case only: the merge has no non-empty value for it, the text
  contains its name followed by a colon, and the probe pattern matches.

  Extraction by brace depth: after the first opening brace of the text read, a body
  whose braces balance and none of whose prefixes closes more braces than it opens,
  followed by a closing brace, is the block extracted, however deep the braces nest in
  it; a text that never closes the first brace, or has no brace, gives the empty block.

  The palette explorer's \<^verbatim>\<open>extractCSSVars\<close> is different: it reads the first place
  where the root selector pattern matches only, up to the first closing brace after it
  (nothing when no closing brace follows).
\<close>

theorem base_blocks_merged:
  "root_loop cssText [] = merge_blocks [] (base_blocks cssText) \<and>
   (''root'' \<notin> set (map fst (theme_matches cssText)) \<and>
    ''__proto__'' \<notin> set (map fst (theme_matches cssText))
      \<longrightarrow> obj_get (parseTokensCSS cssText) ''root'' =
            Some (let merged = merge_blocks [] (base_blocks cssText) in
                  if (obj_get merged probeName = None \<or> obj_get merged probeName = Some []) \<and>
                     includes_str cssText (probeName @ '':'')
                  then (case probe_match cssText of
                          Some m1 \<Rightarrow> obj_set merged probeName (trim m1)
                        | None \<Rightarrow> merged)
                  else merged)) \<and>
   obj_get (merge_blocks root (blocks @ [b])) k =
     (if b = [] then obj_get (merge_blocks root blocks) k
      else case obj_get (parseCSSVarBlock b) k of
             Some v \<Rightarrow> Some v
           | None \<Rightarrow> obj_get (merge_blocks root blocks) k) \<and>
   (CHR ''{'' \<notin> set pre \<and> brace_balance body = 0 \<and> open_prefixes body
      \<longrightarrow> extractBlockAt (pre @ CHR ''{'' # body @ CHR ''}'' # tail) = body) \<and>
   (CHR ''{'' \<notin> set pre \<and> open_prefixes rest
      \<longrightarrow> extractBlockAt (pre @ CHR ''{'' # rest) = []) \<and>
   (CHR ''{'' \<notin> set pre \<longrightarrow> extractBlockAt pre = []) \<and>
   ((\<forall>k<length before. rootRegex_at (drop k (before @ s)) = None) \<and> rootRegex_at s = Some n
      \<longrightarrow> rootVars (extractCSSVars (before @ s) theme) =
            (if CHR ''}'' \<in> set (drop n s)
             then obj_assign [] (parseVarBlock (takeWhile (\<lambda>x. x \<noteq> CHR ''}'') (drop n s)))
             else []))"
proof -
  have 2: "obj_get (parseTokensCSS cssText) ''root'' =
            Some (let merged = merge_blocks [] (base_blocks cssText) in
                  if (obj_get merged probeName = None \<or> obj_get merged probeName = Some []) \<and>
                     includes_str cssText (probeName @ '':'')
                  then (case probe_match cssText of
                          Some m1 \<Rightarrow> obj_set merged probeName (trim m1)
                        | None \<Rightarrow> merged)
                  else merged)"
    if "''root'' \<notin> set (map fst (theme_matches cssText)) \<and>
        ''__proto__'' \<notin> set (map fst (theme_matches cssText))"
    using that by (intro parseTokensCSS_root_map) simp
  have closed: "close_index d (body @ CHR ''}'' # tail) = Some (length body)"
    if "d + brace_balance body = 1" and "\<forall>n\<le>length body. 1 \<le> d + brace_balance (take n body)"
    for d body tail
    using that
  proof (induction body arbitrary: d)
    case Nil
    then show ?case by (simp add: brace_balance_Nil)
  next
    case (Cons c body)
    define d' where "d' = d + (if c = CHR ''{'' then 1 else if c = CHR ''}'' then - 1 else 0)"
    from Cons.prems(2) [unfolded depth_prefixes_Cons]
    have q: "\<forall>n\<le>length body. 1 \<le> d' + brace_balance (take n body)" by (simp add: d'_def)
    from q [THEN spec, of 0] have p: "1 \<le> d'" by (simp add: brace_balance_Nil)
    from Cons.prems(1) have "d' + brace_balance body = 1"
      by (simp add: d'_def brace_balance_Cons)
    from Cons.IH [OF this q] p show ?case
      by (auto simp: d'_def split: if_splits)
  qed
  have unclosed: "close_index d rest = None"
    if "\<forall>n\<le>length rest. 1 \<le> d + brace_balance (take n rest)" for d rest
    using that
  proof (induction rest arbitrary: d)
    case Nil
    then show ?case by simp
  next
    case (Cons c rest)
    define d' where "d' = d + (if c = CHR ''{'' then 1 else if c = CHR ''}'' then - 1 else 0)"
    from Cons.prems [unfolded depth_prefixes_Cons]
    have q: "\<forall>n\<le>length rest. 1 \<le> d' + brace_balance (take n rest)" by (simp add: d'_def)
    from q [THEN spec, of 0] have p: "1 \<le> d'" by (simp add: brace_balance_Nil)
    from Cons.IH [OF q] p show ?case
      by (auto simp: d'_def split: if_splits)
  qed
  have 4: "extractBlockAt (pre @ CHR ''{'' # body @ CHR ''}'' # tail) = body"
    if h: "CHR ''{'' \<notin> set pre \<and> brace_balance body = 0 \<and> open_prefixes body"
  proof -
    from h have "close_index 1 (body @ CHR ''}'' # tail) = Some (length body)"
      by (intro closed) (simp_all add: open_prefixes_iff)
    then have "close_index 0 (CHR ''{'' # body @ CHR ''}'' # tail) = Some (Suc (length body))"
      by simp
    then show ?thesis
      using h find_sub_first [of "CHR ''{''" pre "body @ CHR ''}'' # tail"]
      by (simp add: extractBlockAt_def)
  qed
  have 5: "extractBlockAt (pre @ CHR ''{'' # rest) = []"
    if h: "CHR ''{'' \<notin> set pre \<and> open_prefixes rest"
  proof -
    from h have "close_index 1 rest = None"
      by (intro unclosed) (simp add: open_prefixes_iff)
    then have "close_index 0 (CHR ''{'' # rest) = None" by simp
    then show ?thesis
      using h find_sub_first [of "CHR ''{''" pre rest] by (simp add: extractBlockAt_def)
  qed
  have 6: "extractBlockAt pre = []" if "CHR ''{'' \<notin> set pre"
    using that by (simp add: extractBlockAt_def find_sub_absent)
  have 7: "rootVars (extractCSSVars (before @ s) theme) =
            (if CHR ''}'' \<in> set (drop n s)
             then obj_assign [] (parseVarBlock (takeWhile (\<lambda>x. x \<noteq> CHR ''}'') (drop n s)))
             else [])"
    if "(\<forall>k<length before. rootRegex_at (drop k (before @ s)) = None) \<and> rootRegex_at s = Some n"
  proof -
    from that have "rootMatch (before @ s) =
           (if CHR ''}'' \<in> set (drop n s)
            then Some (takeWhile (\<lambda>x. x \<noteq> CHR ''}'') (drop n s)) else None)"
      by (intro rootMatch_first) simp_all
    then show ?thesis by (simp add: extractCSSVars_def)
  qed
  from root_loop_blocks [of cssText "[]"] 2 merge_blocks_snoc [of root blocks b k] 4 5 6 7
  show ?thesis by (intro conjI impI)
qed

text \<open>
  Two base blocks, the first with braces nested three deep; a text in which the probe
  fallback applies; and the same texts read by brace depth and by the palette explorer.
\<close>

theorem base_blocks_merged_witness:
  "obj_get (parseTokensCSS '':root{--a:1;--w:{{x}};}:root{--a:2;--b:3;}'') ''root'' =
     Some [(''--a'', ''2''), (''--w'', ''{{x}}''), (''--b'', ''3'')] \<and>
   obj_get (parseTokensCSS '':root{--a:1;}.x{--prism-color-chart-accent-primary-figure-default: red;}'') ''root'' =
     Some [(''--a'', ''1''), (''--prism-color-chart-accent-primary-figure-default'', ''red'')] \<and>
   extractBlockAt ('':root'' @ CHR ''{'' # ''--a:1;--w:{{x}};'' @ CHR ''}'' # '':root{--a:2;--b:3;}'') =
     ''--a:1;--w:{{x}};'' \<and>
   extractBlockAt ('':root'' @ CHR ''{'' # ''--a:{1;'') = [] \<and>
   extractBlockAt '':root'' = [] \<and>
   rootVars (extractCSSVars (''a{}'' @ '':root{--a:1;--w:{{x}};}:root{--a:2;--b:3;}'') ''light'') =
     [(''--a'', ''1'')]"
proof -
  have example_two_blocks:
    "''root'' \<notin> set (map fst (theme_matches '':root{--a:1;--w:{{x}};}:root{--a:2;--b:3;}'')) \<and>
     ''__proto__'' \<notin> set (map fst (theme_matches '':root{--a:1;--w:{{x}};}:root{--a:2;--b:3;}''))"
    "(let merged = merge_blocks [] (base_blocks '':root{--a:1;--w:{{x}};}:root{--a:2;--b:3;}'') in
      if (obj_get merged probeName = None \<or> obj_get merged probeName = Some []) \<and>
         includes_str '':root{--a:1;--w:{{x}};}:root{--a:2;--b:3;}'' (probeName @ '':'')
      then (case probe_match '':root{--a:1;--w:{{x}};}:root{--a:2;--b:3;}'' of
              Some m1 \<Rightarrow> obj_set merged probeName (trim m1)
            | None \<Rightarrow> merged)
      else merged) = [(''--a'', ''2''), (''--w'', ''{{x}}''), (''--b'', ''3'')]"
    "base_blocks '':root{--a:1;--w:{{x}};}:root{--a:2;--b:3;}'' = [''--a:1;--w:{{x}};'', ''--a:2;--b:3;'']"
    by code_simp+
  have example_probe:
    "''root'' \<notin> set (map fst (theme_matches '':root{--a:1;}.x{--prism-color-chart-accent-primary-figure-default: red;}'')) \<and>
     ''__proto__'' \<notin> set (map fst (theme_matches '':root{--a:1;}.x{--prism-color-chart-accent-primary-figure-default: red;}''))"
    "(let merged = merge_blocks [] (base_blocks '':root{--a:1;}.x{--prism-color-chart-accent-primary-figure-default: red;}'') in
      if (obj_get merged probeName = None \<or> obj_get merged probeName = Some []) \<and>
         includes_str '':root{--a:1;}.x{--prism-color-chart-accent-primary-figure-default: red;}'' (probeName @ '':'')
      then (case probe_match '':root{--a:1;}.x{--prism-color-chart-accent-primary-figure-default: red;}'' of
              Some m1 \<Rightarrow> obj_set merged probeName (trim m1)
            | None \<Rightarrow> merged)
      else merged) = [(''--a'', ''1''), (''--prism-color-chart-accent-primary-figure-default'', ''red'')]"
    by code_simp+
  have example_depth:
    "CHR ''{'' \<notin> set '':root'' \<and> brace_balance ''--a:1;--w:{{x}};'' = 0 \<and> open_prefixes ''--a:1;--w:{{x}};''"
    "CHR ''{'' \<notin> set '':root'' \<and> open_prefixes ''--a:{1;''"
    "CHR ''{'' \<notin> set '':root''"
    by code_simp+
  have example_first_root:
    "list_all (\<lambda>k. rootRegex_at (drop k (''a{}'' @ '':root{--a:1;--w:{{x}};}:root{--a:2;--b:3;}'')) = None)
       [0..<length ''a{}'']"
    "rootRegex_at '':root{--a:1;--w:{{x}};}:root{--a:2;--b:3;}'' = Some 6"
    "(if CHR ''}'' \<in> set (drop 6 '':root{--a:1;--w:{{x}};}:root{--a:2;--b:3;}'')
      then obj_assign [] (parseVarBlock (takeWhile (\<lambda>x. x \<noteq> CHR ''}'')
             (drop 6 '':root{--a:1;--w:{{x}};}:root{--a:2;--b:3;}'')))
      else []) = [(''--a'', ''1'')]"
    by code_simp+
  from base_blocks_merged [of "'':root{--a:1;--w:{{x}};}:root{--a:2;--b:3;}''",
      THEN conjunct2, THEN conjunct1, THEN mp, OF example_two_blocks(1)]
  have 1: "obj_get (parseTokensCSS '':root{--a:1;--w:{{x}};}:root{--a:2;--b:3;}'') ''root'' =
     Some [(''--a'', ''2''), (''--w'', ''{{x}}''), (''--b'', ''3'')]"
    by (simp only: example_two_blocks(2))
  from base_blocks_merged [of "'':root{--a:1;}.x{--prism-color-chart-accent-primary-figure-default: red;}''",
      THEN conjunct2, THEN conjunct1, THEN mp, OF example_probe(1)]
  have 2: "obj_get (parseTokensCSS '':root{--a:1;}.x{--prism-color-chart-accent-primary-figure-default: red;}'') ''root'' =
     Some [(''--a'', ''1''), (''--prism-color-chart-accent-primary-figure-default'', ''red'')]"
    by (simp only: example_probe(2))
  from base_blocks_merged [where pre = "'':root''" and body = "''--a:1;--w:{{x}};''"
      and tail = "'':root{--a:2;--b:3;}''",
      THEN conjunct2, THEN conjunct2, THEN conjunct2, THEN conjunct1, THEN mp, OF example_depth(1)]
  have 3: "extractBlockAt ('':root'' @ CHR ''{'' # ''--a:1;--w:{{x}};'' @ CHR ''}'' # '':root{--a:2;--b:3;}'') =
     ''--a:1;--w:{{x}};''" .
  from base_blocks_merged [where pre = "'':root''" and rest = "''--a:{1;''",
      THEN conjunct2, THEN conjunct2, THEN conjunct2, THEN conjunct2, THEN conjunct1, THEN mp,
      OF example_depth(2)]
  have 4: "extractBlockAt ('':root'' @ CHR ''{'' # ''--a:{1;'') = []" .
  from base_blocks_merged [where pre = "'':root''",
      THEN conjunct2, THEN conjunct2, THEN conjunct2, THEN conjunct2, THEN conjunct2,
      THEN conjunct1, THEN mp, OF example_depth(3)]
  have 5: "extractBlockAt '':root'' = []" .
  have h: "(\<forall>k<length ''a{}''.
             rootRegex_at (drop k (''a{}'' @ '':root{--a:1;--w:{{x}};}:root{--a:2;--b:3;}'')) = None) \<and>
           rootRegex_at '':root{--a:1;--w:{{x}};}:root{--a:2;--b:3;}'' = Some 6"
    using list_all_upt [OF example_first_root(1)] example_first_root(2) by (rule conjI)
  from base_blocks_merged [where before = "''a{}''"
      and s = "'':root{--a:1;--w:{{x}};}:root{--a:2;--b:3;}''" and n = 6 and theme = "''light''",
      THEN conjunct2, THEN conjunct2, THEN conjunct2, THEN conjunct2, THEN conjunct2, THEN conjunct2,
      THEN mp, OF h]
  have 6: "rootVars (extractCSSVars (''a{}'' @ '':root{--a:1;--w:{{x}};}:root{--a:2;--b:3;}'') ''light'') =
     [(''--a'', ''1'')]"
    by (simp only: example_first_root(3))
  from 1 2 3 4 5 6 show ?thesis by (intro conjI)
qed

text \<open>
  C2 as stated fails: of two blocks for the theme \<^verbatim>\<open>dark\<close> the token explorer keeps the
  first only, and the palette explorer's override map stays empty for a theme block with
  a declaration.
\<close>

theorem theme_blocks_counterexample:
  "''[data-theme=dark]{--b:2;}'' \<in> set (positions ''[data-theme=dark]{--a:1;}[data-theme=dark]{--b:2;}'') \<and>
   map_option (\<lambda>p. theme_name (fst p)) (themeSelRegex_at ''[data-theme=dark]{--b:2;}'') = Some ''dark'' \<and>
   obj_get (parseCSSVarBlock (extractBlockAt ''[data-theme=dark]{--b:2;}'')) ''--b'' = Some ''2'' \<and>
   obj_get (parseTokensCSS ''[data-theme=dark]{--a:1;}[data-theme=dark]{--b:2;}'') ''dark'' = Some [(''--a'', ''1'')] \<and>
   overrides (extractCSSVars ('':root[data-theme='' @ [CHR 0x27] @ ''dark'' @ [CHR 0x27] @ '']{--a:1;}'') ''dark'') = []"
  by code_simp

text \<open>
  C2, amended.  For every stylesheet text with no theme selector named \<^verbatim>\<open>__proto__\<close>,
  and every theme name other than \<^verbatim>\<open>root\<close>, the token explorer's \<^verbatim>\<open>parseTokensCSS\<close>
  looks at the first theme selector with that (cleaned) name only: if the block extracted
  there by brace depth is not empty and the name is not a member of
  \<^verbatim>\<open>Object.prototype\<close>, its declarations are the theme's override map; otherwise, and
  when no selector has that name, the theme has no entry.  Later blocks of the same theme
  are not read.

  Extraction by brace depth: after the first opening brace of the text read, a body
  whose braces balance and none of whose prefixes closes more braces than it opens,
  followed by a closing brace, is the block extracted, however deep the braces nest in
  it; a text that never closes the first brace, or has no brace, gives the empty block.
\<close>

theorem theme_first_block:
  assumes "t \<noteq> []" and "t \<noteq> ''root''"
    and "''__proto__'' \<notin> set (map fst (theme_matches cssText))"
  shows "obj_get (parseTokensCSS cssText) t =
           (case map_of (theme_matches cssText) t of
              None \<Rightarrow> None
            | Some s \<Rightarrow>
                if extractBlockAt s = [] \<or> t \<in> set Object_prototype_members then None
                else Some (obj_assign [] (parseCSSVarBlock (extractBlockAt s)))) \<and>
         (CHR ''{'' \<notin> set pre \<and> brace_balance body = 0 \<and> open_prefixes body
            \<longrightarrow> extractBlockAt (pre @ CHR ''{'' # body @ CHR ''}'' # tail) = body) \<and>
         (CHR ''{'' \<notin> set pre \<and> open_prefixes rest
            \<longrightarrow> extractBlockAt (pre @ CHR ''{'' # rest) = []) \<and>
         (CHR ''{'' \<notin> set pre \<longrightarrow> extractBlockAt pre = [])"
proof -
  have closed: "close_index d (body @ CHR ''}'' # tail) = Some (length body)"
    if "d + brace_balance body = 1" and "\<forall>n\<le>length body. 1 \<le> d + brace_balance (take n body)"
    for d body tail
    using that
  proof (induction body arbitrary: d)
    case Nil
    then show ?case by (simp add: brace_balance_Nil)
  next
    case (Cons c body)
    define d' where "d' = d + (if c = CHR ''{'' then 1 else if c = CHR ''}'' then - 1 else 0)"
    from Cons.prems(2) [unfolded depth_prefixes_Cons]
    have q: "\<forall>n\<le>length body. 1 \<le> d' + brace_balance (take n body)" by (simp add: d'_def)
    from q [THEN spec, of 0] have p: "1 \<le> d'" by (simp add: brace_balance_Nil)
    from Cons.prems(1) have "d' + brace_balance body = 1"
      by (simp add: d'_def brace_balance_Cons)
    from Cons.IH [OF this q] p show ?case
      by (auto simp: d'_def split: if_splits)
  qed
  have unclosed: "close_index d rest = None"
    if "\<forall>n\<le>length rest. 1 \<le> d + brace_balance (take n rest)" for d rest
    using that
  proof (induction rest arbitrary: d)
    case Nil
    then show ?case by simp
  next
    case (Cons c rest)
    define d' where "d' = d + (if c = CHR ''{'' then 1 else if c = CHR ''}'' then - 1 else 0)"
    from Cons.prems [unfolded depth_prefixes_Cons]
    have q: "\<forall>n\<le>length rest. 1 \<le> d' + brace_balance (take n rest)" by (simp add: d'_def)
    from q [THEN spec, of 0] have p: "1 \<le> d'" by (simp add: brace_balance_Nil)
    from Cons.IH [OF q] p show ?case
      by (auto simp: d'_def split: if_splits)
  qed
  have 4: "extractBlockAt (pre @ CHR ''{'' # body @ CHR ''}'' # tail) = body"
    if h: "CHR ''{'' \<notin> set pre \<and> brace_balance body = 0 \<and> open_prefixes body"
  proof -
    from h have "close_index 1 (body @ CHR ''}'' # tail) = Some (length body)"
      by (intro closed) (simp_all add: open_prefixes_iff)
    then have "close_index 0 (CHR ''{'' # body @ CHR ''}'' # tail) = Some (Suc (length body))"
      by simp
    then show ?thesis
      using h find_sub_first [of "CHR ''{''" pre "body @ CHR ''}'' # tail"]
      by (simp add: extractBlockAt_def)
  qed
  have 5: "extractBlockAt (pre @ CHR ''{'' # rest) = []"
    if h: "CHR ''{'' \<notin> set pre \<and> open_prefixes rest"
  proof -
    from h have "close_index 1 rest = None"
      by (intro unclosed) (simp add: open_prefixes_iff)
    then have "close_index 0 (CHR ''{'' # rest) = None" by simp
    then show ?thesis
      using h find_sub_first [of "CHR ''{''" pre rest] by (simp add: extractBlockAt_def)
  qed
  have 6: "extractBlockAt pre = []" if "CHR ''{'' \<notin> set pre"
    using that by (simp add: extractBlockAt_def find_sub_absent)
  from parseTokensCSS_theme [OF assms(1,2), of cssText] 4 5 6
  show ?thesis by (intro conjI impI)
qed

text \<open>
  Two blocks for the theme \<^verbatim>\<open>dark\<close>, the first with braces nested three deep, and a
  block for a theme named \<^verbatim>\<open>constructor\<close>.
\<close>

theorem theme_first_block_witness:
  "obj_get (parseTokensCSS ''[data-theme=dark]{--a:1;--w:{{x}};}[data-theme=dark]{--b:2;}'') ''dark'' =
     Some [(''--a'', ''1''), (''--w'', ''{{x}}'')] \<and>
   obj_get (parseTokensCSS ''[data-theme=constructor]{--a:1;}'') ''constructor'' = None \<and>
   extractBlockAt (''[data-theme=dark]'' @ CHR ''{'' # ''--a:1;--w:{{x}};'' @ CHR ''}'' # ''[data-theme=dark]{--b:2;}'') =
     ''--a:1;--w:{{x}};'' \<and>
   extractBlockAt (''[data-theme=dark]'' @ CHR ''{'' # ''--a:{1;'') = [] \<and>
   extractBlockAt ''[data-theme=dark]'' = []"
proof -
  have example_two_dark:
    "''__proto__'' \<notin> set (map fst (theme_matches ''[data-theme=dark]{--a:1;--w:{{x}};}[data-theme=dark]{--b:2;}''))"
    "(case map_of (theme_matches ''[data-theme=dark]{--a:1;--w:{{x}};}[data-theme=dark]{--b:2;}'') ''dark'' of
        None \<Rightarrow> None
      | Some s \<Rightarrow>
          if extractBlockAt s = [] \<or> ''dark'' \<in> set Object_prototype_members then None
          else Some (obj_assign [] (parseCSSVarBlock (extractBlockAt s)))) =
     Some [(''--a'', ''1''), (''--w'', ''{{x}}'')]"
    by code_simp+
  have example_constructor:
    "''__proto__'' \<notin> set (map fst (theme_matches ''[data-theme=constructor]{--a:1;}''))"
    "(case map_of (theme_matches ''[data-theme=constructor]{--a:1;}'') ''constructor'' of
        None \<Rightarrow> None
      | Some s \<Rightarrow>
          if extractBlockAt s = [] \<or> ''constructor'' \<in> set Object_prototype_members then None
          else Some (obj_assign [] (parseCSSVarBlock (extractBlockAt s)))) = None"
    "map_of (theme_matches ''[data-theme=constructor]{--a:1;}'') ''constructor'' =
       Some ''[data-theme=constructor]{--a:1;}''"
    "extractBlockAt ''[data-theme=constructor]{--a:1;}'' = ''--a:1;''"
    by code_simp+
  have example_theme_depth:
    "CHR ''{'' \<notin> set ''[data-theme=dark]'' \<and> brace_balance ''--a:1;--w:{{x}};'' = 0 \<and>
     open_prefixes ''--a:1;--w:{{x}};''"
    "CHR ''{'' \<notin> set ''[data-theme=dark]'' \<and> open_prefixes ''--a:{1;''"
    "CHR ''{'' \<notin> set ''[data-theme=dark]''"
    by code_simp+
  have n: "''dark'' \<noteq> []" "''dark'' \<noteq> ''root''" by simp_all
  have c: "''constructor'' \<noteq> []" "''constructor'' \<noteq> ''root''" by simp_all
  note t = theme_first_block [OF n example_two_dark(1)]
  from t [THEN conjunct1]
  have 1: "obj_get (parseTokensCSS ''[data-theme=dark]{--a:1;--w:{{x}};}[data-theme=dark]{--b:2;}'') ''dark'' =
     Some [(''--a'', ''1''), (''--w'', ''{{x}}'')]"
    by (simp only: example_two_dark(2))
  from theme_first_block [OF c example_constructor(1), THEN conjunct1]
  have 2: "obj_get (parseTokensCSS ''[data-theme=constructor]{--a:1;}'') ''constructor'' = None"
    by (simp only: example_constructor(2))
  from t [where pre = "''[data-theme=dark]''" and body = "''--a:1;--w:{{x}};''"
      and tail = "''[data-theme=dark]{--b:2;}''",
      THEN conjunct2, THEN conjunct1, THEN mp, OF example_theme_depth(1)]
  have 3: "extractBlockAt (''[data-theme=dark]'' @ CHR ''{'' # ''--a:1;--w:{{x}};'' @ CHR ''}'' # ''[data-theme=dark]{--b:2;}'') =
     ''--a:1;--w:{{x}};''" .
  from t [where pre = "''[data-theme=dark]''" and rest = "''--a:{1;''",
      THEN conjunct2, THEN conjunct2, THEN conjunct1, THEN mp, OF example_theme_depth(2)]
  have 4: "extractBlockAt (''[data-theme=dark]'' @ CHR ''{'' # ''--a:{1;'') = []" .
  from t [where pre = "''[data-theme=dark]''",
      THEN conjunct2, THEN conjunct2, THEN conjunct2, THEN mp, OF example_theme_depth(3)]
  have 5: "extractBlockAt ''[data-theme=dark]'' = []" .
  from 1 2 3 4 5 show ?thesis by (intro conjI)
qed

end
